theory Spec2Isabelle
  imports Main "HOL-Library.Word"
begin

section \<open>Strings of the language runtime\<close>

text \<open>
  A string of the program is a sequence of 16-bit code units. Literals are written as
  \<open>js ''...''\<close>; code units that are awkward inside a literal (the double quote, the
  backslash) are written as hexadecimal numerals.
\<close>

type_synonym jschar = "16 word"
type_synonym jsstring = "jschar list"

definition js :: "string \<Rightarrow> jsstring" where
  "js s = map of_char s"

datatype js_error = SyntaxError | TypeError | SystemError jsstring

section \<open>JSON values, \<open>JSON.stringify\<close> and \<open>JSON.parse\<close>\<close>

text \<open>
  \<open>JSON.parse\<close> and \<open>JSON.stringify\<close> belong to the language runtime. They are
  modelled on the JSON grammar and on the runtime's serialisation algorithm. An object is
  the list of its own properties in enumeration order. A number is kept as its token: the
  runtime converts it to a double and writes the double back in its shortest form, which
  the model does not do, and no statement below depends on the value of a number or on
  the text written for one.
\<close>

datatype json =
    JNull
  | JBool bool
  | JNumber jsstring
  | JString jsstring
  | JArray "json list"
  | JObject "(jsstring \<times> json) list"

subsection \<open>Quoting a string\<close>

definition hexDigit :: "nat \<Rightarrow> jschar" where
  "hexDigit n = (if n < 10 then of_nat (48 + n) else of_nat (87 + n))"

text \<open>A backslash, the letter u and four lower-case hexadecimal digits.\<close>

definition UnicodeEscape :: "jschar \<Rightarrow> jsstring" where
  "UnicodeEscape c =
     [0x5C, 0x75, hexDigit (unat c div 4096), hexDigit (unat c div 256 mod 16),
      hexDigit (unat c div 16 mod 16), hexDigit (unat c mod 16)]"

definition isLeadingSurrogate :: "jschar \<Rightarrow> bool" where
  "isLeadingSurrogate c = (0xD800 \<le> c \<and> c \<le> 0xDBFF)"

definition isTrailingSurrogate :: "jschar \<Rightarrow> bool" where
  "isTrailingSurrogate c = (0xDC00 \<le> c \<and> c \<le> 0xDFFF)"

text \<open>
  The two-character escapes: backspace, tab, line feed, form feed, carriage return, the
  double quote and the backslash, each mapped to the character that follows the backslash.
\<close>

definition tableEscape :: "jschar \<Rightarrow> jschar option" where
  "tableEscape c =
     (if c = 0x08 then Some 0x62
      else if c = 0x09 then Some 0x74
      else if c = 0x0A then Some 0x6E
      else if c = 0x0C then Some 0x66
      else if c = 0x0D then Some 0x72
      else if c = 0x22 then Some 0x22
      else if c = 0x5C then Some 0x5C
      else None)"

text \<open>
  The remaining control characters and every surrogate that is not part of a pair are
  written as \<open>UnicodeEscape\<close>; a surrogate pair and every other code unit are copied.
\<close>

fun quoteChars :: "jsstring \<Rightarrow> jsstring" where
  "quoteChars [] = []"
| "quoteChars (c # cs) =
    (case tableEscape c of
       Some e \<Rightarrow> [0x5C, e] @ quoteChars cs
     | None \<Rightarrow>
        if c < 0x20 then UnicodeEscape c @ quoteChars cs
        else if isLeadingSurrogate c then
          (case cs of
             [] \<Rightarrow> UnicodeEscape c
           | d # ds \<Rightarrow>
               if isTrailingSurrogate d then c # d # quoteChars ds
               else UnicodeEscape c @ quoteChars cs)
        else if isTrailingSurrogate c then UnicodeEscape c @ quoteChars cs
        else c # quoteChars cs)"

definition QuoteJSONString :: "jsstring \<Rightarrow> jsstring" where
  "QuoteJSONString s = 0x22 # quoteChars s @ [0x22]"

subsection \<open>Serialisation\<close>

fun JSON_stringify :: "json \<Rightarrow> jsstring"
  and stringifyElements :: "json list \<Rightarrow> jsstring"
  and stringifyMembers :: "(jsstring \<times> json) list \<Rightarrow> jsstring" where
  "JSON_stringify JNull = js ''null''"
| "JSON_stringify (JBool b) = (if b then js ''true'' else js ''false'')"
| "JSON_stringify (JNumber n) = n"
| "JSON_stringify (JString s) = QuoteJSONString s"
| "JSON_stringify (JArray vs) = 0x5B # stringifyElements vs @ [0x5D]"
| "JSON_stringify (JObject ms) = 0x7B # stringifyMembers ms @ [0x7D]"
| "stringifyElements [] = []"
| "stringifyElements [v] = JSON_stringify v"
| "stringifyElements (v # w # vs) = JSON_stringify v @ 0x2C # stringifyElements (w # vs)"
| "stringifyMembers [] = []"
| "stringifyMembers [(k, v)] = QuoteJSONString k @ 0x3A # JSON_stringify v"
| "stringifyMembers ((k, v) # m # ms) =
     QuoteJSONString k @ 0x3A # JSON_stringify v @ 0x2C # stringifyMembers (m # ms)"

subsection \<open>Scanning a string token\<close>

definition hexVal :: "jschar \<Rightarrow> nat option" where
  "hexVal c =
     (if 0x30 \<le> c \<and> c \<le> 0x39 then Some (unat c - 48)
      else if 0x61 \<le> c \<and> c \<le> 0x66 then Some (unat c - 87)
      else if 0x41 \<le> c \<and> c \<le> 0x46 then Some (unat c - 55)
      else None)"

definition hex4 :: "jschar \<Rightarrow> jschar \<Rightarrow> jschar \<Rightarrow> jschar \<Rightarrow> jschar option" where
  "hex4 a b c d =
     (case (hexVal a, hexVal b, hexVal c, hexVal d) of
        (Some x, Some y, Some z, Some w) \<Rightarrow> Some (of_nat (((x * 16 + y) * 16 + z) * 16 + w))
      | _ \<Rightarrow> None)"

text \<open>The character after a backslash (other than u) and the code unit it stands for.\<close>

definition simpleEscape :: "jschar \<Rightarrow> jschar option" where
  "simpleEscape e =
     (if e = 0x22 then Some 0x22
      else if e = 0x5C then Some 0x5C
      else if e = 0x2F then Some 0x2F
      else if e = 0x62 then Some 0x08
      else if e = 0x66 then Some 0x0C
      else if e = 0x6E then Some 0x0A
      else if e = 0x72 then Some 0x0D
      else if e = 0x74 then Some 0x09
      else None)"

definition consChar :: "jschar \<Rightarrow> (jsstring \<times> jsstring) option \<Rightarrow> (jsstring \<times> jsstring) option" where
  "consChar c r = (case r of None \<Rightarrow> None | Some (s, rest) \<Rightarrow> Some (c # s, rest))"

text \<open>
  \<open>scanString\<close> reads the text after an opening double quote up to and including the
  closing one, and returns the string denoted and the text that follows. \<open>None\<close> is a
  syntax error: no closing quote, an unescaped control character, or a bad escape.
\<close>

fun scanString :: "jsstring \<Rightarrow> (jsstring \<times> jsstring) option" where
  "scanString [] = None"
| "scanString (c # cs) =
    (if c = 0x22 then Some ([], cs)
     else if c = 0x5C then
       (case cs of
          [] \<Rightarrow> None
        | e # r \<Rightarrow>
            if e = 0x75 then
              (case r of
                 a # b # x # y # r' \<Rightarrow>
                   (case hex4 a b x y of
                      None \<Rightarrow> None
                    | Some u \<Rightarrow> consChar u (scanString r'))
               | _ \<Rightarrow> None)
            else
              (case simpleEscape e of
                 None \<Rightarrow> None
               | Some u \<Rightarrow> consChar u (scanString r)))
     else if c < 0x20 then None
     else consChar c (scanString cs))"

subsection \<open>Scanning a number token\<close>

definition isDigit :: "jschar \<Rightarrow> bool" where
  "isDigit c = (0x30 \<le> c \<and> c \<le> 0x39)"

text \<open>The integer part: a single zero, or a non-zero digit followed by digits.\<close>

definition lexInt :: "jsstring \<Rightarrow> (jsstring \<times> jsstring) option" where
  "lexInt s =
     (case s of
        [] \<Rightarrow> None
      | c # r \<Rightarrow>
          if c = 0x30 then Some ([c], r)
          else if isDigit c then Some (c # takeWhile isDigit r, dropWhile isDigit r)
          else None)"

text \<open>An optional fraction: a full stop followed by at least one digit.\<close>

definition lexFrac :: "jsstring \<Rightarrow> (jsstring \<times> jsstring) option" where
  "lexFrac s =
     (case s of
        [] \<Rightarrow> Some ([], s)
      | c # r \<Rightarrow>
          if c = 0x2E then
            (if takeWhile isDigit r = [] then None
             else Some (c # takeWhile isDigit r, dropWhile isDigit r))
          else Some ([], s))"

text \<open>An optional exponent: e or E, an optional sign, at least one digit.\<close>

definition lexSign :: "jsstring \<Rightarrow> jsstring \<times> jsstring" where
  "lexSign s =
     (case s of
        [] \<Rightarrow> ([], s)
      | d # r \<Rightarrow> if d = 0x2B \<or> d = 0x2D then ([d], r) else ([], s))"

definition lexExp :: "jsstring \<Rightarrow> (jsstring \<times> jsstring) option" where
  "lexExp s =
     (case s of
        [] \<Rightarrow> Some ([], s)
      | c # r \<Rightarrow>
          if c = 0x65 \<or> c = 0x45 then
            (case lexSign r of
               (sg, r') \<Rightarrow>
                 if takeWhile isDigit r' = [] then None
                 else Some (c # sg @ takeWhile isDigit r', dropWhile isDigit r'))
          else Some ([], s))"

definition lexMinus :: "jsstring \<Rightarrow> jsstring \<times> jsstring" where
  "lexMinus s =
     (case s of
        [] \<Rightarrow> ([], s)
      | c # r \<Rightarrow> if c = 0x2D then ([c], r) else ([], s))"

definition lexNumber :: "jsstring \<Rightarrow> (jsstring \<times> jsstring) option" where
  "lexNumber s =
     (case lexMinus s of
        (sg, s0) \<Rightarrow>
          (case lexInt s0 of
             None \<Rightarrow> None
           | Some (i, s1) \<Rightarrow>
               (case lexFrac s1 of
                  None \<Rightarrow> None
                | Some (f, s2) \<Rightarrow>
                    (case lexExp s2 of
                       None \<Rightarrow> None
                     | Some (e, s3) \<Rightarrow> Some (sg @ i @ f @ e, s3)))))"

subsection \<open>Tokens\<close>

datatype token =
    TLBrace | TRBrace | TLBracket | TRBracket | TColon | TComma
  | TString jsstring | TNumber jsstring | TTrue | TFalse | TNull

text \<open>White space between tokens: space, tab, line feed, carriage return.\<close>

definition isWhiteSpace :: "jschar \<Rightarrow> bool" where
  "isWhiteSpace c = (c = 0x20 \<or> c = 0x09 \<or> c = 0x0A \<or> c = 0x0D)"

definition consToken :: "token \<Rightarrow> token list option \<Rightarrow> token list option" where
  "consToken t r = (case r of None \<Rightarrow> None | Some ts \<Rightarrow> Some (t # ts))"

lemma scanString_shorter: "scanString s = Some (x, r) \<Longrightarrow> length r < length s"
proof (induction s arbitrary: x r rule: length_induct)
  case (1 s)
  have step: "length r < length s" if "scanString t = Some (x', r)" "length t < length s" for t x'
    using 1(1) that by fastforce
  show ?case
  proof (cases s)
    case Nil
    with 1(2) show ?thesis by simp
  next
    case (Cons c cs)
    have "(c = 0x22 \<and> r = cs) \<or> (\<exists>t x'. scanString t = Some (x', r) \<and> length t < length s)"
      using 1(2) Cons
      by (auto simp: consChar_def split: if_splits option.splits list.splits)
    then show ?thesis using step Cons by auto
  qed
qed

lemma lexNumber_shorter: "lexNumber s = Some (x, r) \<Longrightarrow> length r < length s"
proof -
  assume a: "lexNumber s = Some (x, r)"
  obtain sg s0 where m: "lexMinus s = (sg, s0)" by (cases "lexMinus s")
  then have l0: "length s0 \<le> length s"
    by (auto simp: lexMinus_def split: list.splits if_splits)
  from a m obtain i s1 where i: "lexInt s0 = Some (i, s1)"
    by (auto simp: lexNumber_def split: option.splits)
  then have l1: "length s1 < length s0"
    using length_dropWhile_le [of isDigit]
    by (auto simp: lexInt_def less_Suc_eq_le split: list.splits if_splits)
  from a m i obtain f s2 where f: "lexFrac s1 = Some (f, s2)"
    by (auto simp: lexNumber_def split: option.splits)
  then have l2: "length s2 \<le> length s1"
    using length_dropWhile_le [of isDigit]
    by (auto simp: lexFrac_def le_Suc_eq split: list.splits if_splits)
  from a m i f obtain e where e: "lexExp s2 = Some (e, r)"
    by (auto simp: lexNumber_def split: option.splits)
  have sgn: "length (snd (lexSign t)) \<le> length t" for t
    by (auto simp: lexSign_def split: list.splits)
  have "length r \<le> length s2"
  proof (cases s2)
    case Nil
    with e show ?thesis by (simp add: lexExp_def)
  next
    case (Cons c t)
    show ?thesis
    proof (cases "c = 0x65 \<or> c = 0x45")
      case False
      with e Cons show ?thesis by (auto simp: lexExp_def)
    next
      case True
      with e Cons have "r = dropWhile isDigit (snd (lexSign t))"
        by (auto simp: lexExp_def split: prod.splits if_splits)
      then have "length r \<le> length (snd (lexSign t))"
        by (simp add: length_dropWhile_le)
      with sgn [of t] Cons show ?thesis by simp
    qed
  qed
  with l0 l1 l2 show ?thesis by simp
qed

text \<open>
  The text as a list of tokens; \<open>None\<close> is a syntax error. The words true, false and null
  are read letter by letter, a string by \<open>scanString\<close>, anything else as a number.
\<close>

function tokenize :: "jsstring \<Rightarrow> token list option" where
  "tokenize [] = Some []"
| "tokenize (c # cs) =
    (if isWhiteSpace c then tokenize cs
     else if c = 0x7B then consToken TLBrace (tokenize cs)
     else if c = 0x7D then consToken TRBrace (tokenize cs)
     else if c = 0x5B then consToken TLBracket (tokenize cs)
     else if c = 0x5D then consToken TRBracket (tokenize cs)
     else if c = 0x3A then consToken TColon (tokenize cs)
     else if c = 0x2C then consToken TComma (tokenize cs)
     else if c = 0x22 then
       (case scanString cs of
          None \<Rightarrow> None
        | Some (s, r) \<Rightarrow> consToken (TString s) (tokenize r))
     else if c = 0x74 then
       (if take 3 cs = js ''rue'' then consToken TTrue (tokenize (drop 3 cs)) else None)
     else if c = 0x66 then
       (if take 4 cs = js ''alse'' then consToken TFalse (tokenize (drop 4 cs)) else None)
     else if c = 0x6E then
       (if take 3 cs = js ''ull'' then consToken TNull (tokenize (drop 3 cs)) else None)
     else
       (case lexNumber (c # cs) of
          None \<Rightarrow> None
        | Some (n, r) \<Rightarrow> consToken (TNumber n) (tokenize r)))"
  by pat_completeness auto
termination
proof (relation "measure length")
  show "wf (measure length)" by simp
qed (auto dest: scanString_shorter lexNumber_shorter)

subsection \<open>Objects\<close>

text \<open>
  The own properties of an object are enumerated with the array indices first, in
  ascending order, and then the other keys in the order of their creation. An array index
  is the canonical decimal numeral of a number below \<open>2\<^sup>3\<^sup>2 - 1\<close>.
\<close>

definition decimalValue :: "jsstring \<Rightarrow> nat" where
  "decimalValue k = foldl (\<lambda>n c. 10 * n + (unat c - 48)) 0 k"

definition arrayIndex :: "jsstring \<Rightarrow> nat option" where
  "arrayIndex k =
     (if k = [] then None
      else if \<not> list_all isDigit k then None
      else if hd k = 0x30 \<and> 1 < length k then None
      else if 4294967295 \<le> decimalValue k then None
      else Some (decimalValue k))"

fun insertIndexed :: "nat \<Rightarrow> jsstring \<Rightarrow> json \<Rightarrow> (jsstring \<times> json) list \<Rightarrow> (jsstring \<times> json) list" where
  "insertIndexed n k v [] = [(k, v)]"
| "insertIndexed n k v ((k', v') # ms) =
     (case arrayIndex k' of
        None \<Rightarrow> (k, v) # (k', v') # ms
      | Some m \<Rightarrow>
          if m < n then (k', v') # insertIndexed n k v ms
          else (k, v) # (k', v') # ms)"

fun replaceProperty :: "jsstring \<Rightarrow> json \<Rightarrow> (jsstring \<times> json) list \<Rightarrow> (jsstring \<times> json) list" where
  "replaceProperty k v [] = []"
| "replaceProperty k v ((k', v') # ms) =
     (if k' = k then (k, v) # ms else (k', v') # replaceProperty k v ms)"

text \<open>
  Defining a property: an existing key keeps its place and takes the new value; a new key
  is added where the enumeration order puts it.
\<close>

definition defineProperty :: "jsstring \<Rightarrow> json \<Rightarrow> (jsstring \<times> json) list \<Rightarrow> (jsstring \<times> json) list" where
  "defineProperty k v ms =
     (case map_of ms k of
        Some old \<Rightarrow> replaceProperty k v ms
      | None \<Rightarrow>
          (case arrayIndex k of
             None \<Rightarrow> ms @ [(k, v)]
           | Some n \<Rightarrow> insertIndexed n k v ms))"

subsection \<open>Parsing\<close>

text \<open>
  The parser is a pushdown automaton over the tokens. A frame of the stack is an array
  or an object under construction; an object's frame also holds the key whose value is
  being read.
\<close>

datatype frame =
    InArray "json list"
  | InObject "(jsstring \<times> json) list" jsstring

datatype pstate =
    ExpectValue "frame list"
  | ExpectFirstElement "frame list"
  | ExpectFirstMember "frame list"
  | ExpectKey "(jsstring \<times> json) list" "frame list"
  | ExpectColon "(jsstring \<times> json) list" jsstring "frame list"
  | AfterElement "json list" "frame list"
  | AfterMember "(jsstring \<times> json) list" "frame list"
  | Done json

text \<open>A value is complete: it is the result, or it goes into the enclosing frame.\<close>

fun complete :: "json \<Rightarrow> frame list \<Rightarrow> pstate" where
  "complete v [] = Done v"
| "complete v (InArray acc # st) = AfterElement (acc @ [v]) st"
| "complete v (InObject acc k # st) = AfterMember (defineProperty k v acc) st"

text \<open>The token that starts a value.\<close>

fun beginValue :: "token \<Rightarrow> frame list \<Rightarrow> pstate option" where
  "beginValue TLBracket st = Some (ExpectFirstElement st)"
| "beginValue TLBrace st = Some (ExpectFirstMember st)"
| "beginValue (TString s) st = Some (complete (JString s) st)"
| "beginValue (TNumber n) st = Some (complete (JNumber n) st)"
| "beginValue TTrue st = Some (complete (JBool True) st)"
| "beginValue TFalse st = Some (complete (JBool False) st)"
| "beginValue TNull st = Some (complete JNull st)"
| "beginValue TRBrace st = None"
| "beginValue TRBracket st = None"
| "beginValue TColon st = None"
| "beginValue TComma st = None"

fun step :: "pstate \<Rightarrow> token \<Rightarrow> pstate option" where
  "step (ExpectValue st) t = beginValue t st"
| "step (ExpectFirstElement st) t =
     (case t of
        TRBracket \<Rightarrow> Some (complete (JArray []) st)
      | _ \<Rightarrow> beginValue t (InArray [] # st))"
| "step (ExpectFirstMember st) t =
     (case t of
        TRBrace \<Rightarrow> Some (complete (JObject []) st)
      | TString k \<Rightarrow> Some (ExpectColon [] k st)
      | _ \<Rightarrow> None)"
| "step (ExpectKey acc st) t =
     (case t of
        TString k \<Rightarrow> Some (ExpectColon acc k st)
      | _ \<Rightarrow> None)"
| "step (ExpectColon acc k st) t =
     (case t of
        TColon \<Rightarrow> Some (ExpectValue (InObject acc k # st))
      | _ \<Rightarrow> None)"
| "step (AfterElement acc st) t =
     (case t of
        TComma \<Rightarrow> Some (ExpectValue (InArray acc # st))
      | TRBracket \<Rightarrow> Some (complete (JArray acc) st)
      | _ \<Rightarrow> None)"
| "step (AfterMember acc st) t =
     (case t of
        TComma \<Rightarrow> Some (ExpectKey acc st)
      | TRBrace \<Rightarrow> Some (complete (JObject acc) st)
      | _ \<Rightarrow> None)"
| "step (Done v) t = None"

fun run :: "pstate \<Rightarrow> token list \<Rightarrow> pstate option" where
  "run s [] = Some s"
| "run s (t # ts) = (case step s t of None \<Rightarrow> None | Some s' \<Rightarrow> run s' ts)"

text \<open>
  \<open>JSON.parse\<close>: the value the text denotes, or a \<open>SyntaxError\<close> when the text is not
  exactly one JSON value.
\<close>

definition JSON_parse :: "jsstring \<Rightarrow> js_error + json" where
  "JSON_parse text =
     (case tokenize text of
        None \<Rightarrow> Inl SyntaxError
      | Some ts \<Rightarrow>
          (case run (ExpectValue []) ts of
             Some (Done v) \<Rightarrow> Inr v
           | _ \<Rightarrow> Inl SyntaxError))"

section \<open>The JSON grammar\<close>

text \<open>
  What a syntactically valid JSON text is, and the value it denotes, stated apart from
  the scanners and the automaton of the parser: a lexical grammar (white space, the six punctuators, strings, numbers and
  the three literal words) and a syntactic grammar over the tokens. A text is valid when
  it is a sequence of tokens, with white space anywhere between them, that forms one
  value.
\<close>

text \<open>The eight escape characters of a string and the code units they stand for.\<close>

definition escapeCharacters :: "(jschar \<times> jschar) list" where
  "escapeCharacters =
     [(0x22, 0x22), (0x5C, 0x5C), (0x2F, 0x2F), (0x62, 0x08), (0x66, 0x0C), (0x6E, 0x0A),
      (0x72, 0x0D), (0x74, 0x09)]"

text \<open>The hexadecimal digits, in either case, and their values.\<close>

definition hexDigits :: "(jschar \<times> nat) list" where
  "hexDigits =
     [(0x30, 0), (0x31, 1), (0x32, 2), (0x33, 3), (0x34, 4), (0x35, 5), (0x36, 6), (0x37, 7),
      (0x38, 8), (0x39, 9),
      (0x61, 10), (0x62, 11), (0x63, 12), (0x64, 13), (0x65, 14), (0x66, 15),
      (0x41, 10), (0x42, 11), (0x43, 12), (0x44, 13), (0x45, 14), (0x46, 15)]"

text \<open>
  The characters between the quotes of a string and the string they denote: a code unit
  other than the quote, the backslash and the control characters stands for itself; a
  backslash is followed by one of the eight escape characters, or by u and four
  hexadecimal digits, which give the code unit.
\<close>

inductive stringCharacters :: "jsstring \<Rightarrow> jsstring \<Rightarrow> bool" where
  chars_empty: "stringCharacters [] []"
| chars_plain:
    "c \<noteq> 0x22 \<Longrightarrow> c \<noteq> 0x5C \<Longrightarrow> \<not> c < 0x20 \<Longrightarrow> stringCharacters body s
       \<Longrightarrow> stringCharacters (c # body) (c # s)"
| chars_escape:
    "map_of escapeCharacters e = Some c \<Longrightarrow> stringCharacters body s
       \<Longrightarrow> stringCharacters (0x5C # e # body) (c # s)"
| chars_unicode:
    "map_of hexDigits a = Some h3 \<Longrightarrow> map_of hexDigits b = Some h2
       \<Longrightarrow> map_of hexDigits x = Some h1 \<Longrightarrow> map_of hexDigits y = Some h0
       \<Longrightarrow> stringCharacters body s
       \<Longrightarrow> stringCharacters (0x5C # 0x75 # a # b # x # y # body)
             (of_nat (h3 * 4096 + h2 * 256 + h1 * 16 + h0) # s)"

text \<open>
  A number: an optional minus sign, an integer part (a single zero, or digits that do
  not start with zero), an optional fraction (a full stop and digits) and an optional
  exponent (e or E, an optional sign, digits).
\<close>

definition decimalDigits :: "jschar list" where
  "decimalDigits = js ''0123456789''"

definition isDigits :: "jsstring \<Rightarrow> bool" where
  "isDigits d = (d \<noteq> [] \<and> list_all (\<lambda>c. c \<in> set decimalDigits) d)"

definition isIntegerPart :: "jsstring \<Rightarrow> bool" where
  "isIntegerPart i = (i = [0x30] \<or> (isDigits i \<and> hd i \<noteq> 0x30))"

definition isFraction :: "jsstring \<Rightarrow> bool" where
  "isFraction f = (f = [] \<or> (\<exists>d. f = 0x2E # d \<and> isDigits d))"

definition isExponent :: "jsstring \<Rightarrow> bool" where
  "isExponent x =
     (x = [] \<or>
      (\<exists>c sg d. x = c # sg @ d \<and> (c = 0x65 \<or> c = 0x45) \<and>
                 (sg = [] \<or> sg = [0x2B] \<or> sg = [0x2D]) \<and> isDigits d))"

definition isNumber :: "jsstring \<Rightarrow> bool" where
  "isNumber n =
     (\<exists>sg i f x. n = sg @ i @ f @ x \<and> (sg = [] \<or> sg = [0x2D]) \<and>
                  isIntegerPart i \<and> isFraction f \<and> isExponent x)"

text \<open>White space: tab, line feed, carriage return and space.\<close>

definition whiteSpace :: "jschar list" where
  "whiteSpace = [0x09, 0x0A, 0x0D, 0x20]"

text \<open>The lexical grammar: a text and the tokens it consists of.\<close>

inductive tokens :: "jsstring \<Rightarrow> token list \<Rightarrow> bool" where
  tokens_end: "tokens [] []"
| tokens_space: "c \<in> set whiteSpace \<Longrightarrow> tokens s ts \<Longrightarrow> tokens (c # s) ts"
| tokens_lbrace: "tokens s ts \<Longrightarrow> tokens (0x7B # s) (TLBrace # ts)"
| tokens_rbrace: "tokens s ts \<Longrightarrow> tokens (0x7D # s) (TRBrace # ts)"
| tokens_lbracket: "tokens s ts \<Longrightarrow> tokens (0x5B # s) (TLBracket # ts)"
| tokens_rbracket: "tokens s ts \<Longrightarrow> tokens (0x5D # s) (TRBracket # ts)"
| tokens_colon: "tokens s ts \<Longrightarrow> tokens (0x3A # s) (TColon # ts)"
| tokens_comma: "tokens s ts \<Longrightarrow> tokens (0x2C # s) (TComma # ts)"
| tokens_string:
    "stringCharacters body str \<Longrightarrow> tokens s ts
       \<Longrightarrow> tokens (0x22 # body @ 0x22 # s) (TString str # ts)"
| tokens_number: "isNumber n \<Longrightarrow> tokens s ts \<Longrightarrow> tokens (n @ s) (TNumber n # ts)"
| tokens_true: "tokens s ts \<Longrightarrow> tokens (js ''true'' @ s) (TTrue # ts)"
| tokens_false: "tokens s ts \<Longrightarrow> tokens (js ''false'' @ s) (TFalse # ts)"
| tokens_null: "tokens s ts \<Longrightarrow> tokens (js ''null'' @ s) (TNull # ts)"

text \<open>
  The object that a list of members denotes: the members are defined one after the
  other, so that of two members with the same key the later one gives the value.
\<close>

definition objectOf :: "(jsstring \<times> json) list \<Rightarrow> (jsstring \<times> json) list \<Rightarrow> (jsstring \<times> json) list" where
  "objectOf acc ms = foldl (\<lambda>obj m. defineProperty (fst m) (snd m) obj) acc ms"

text \<open>
  The syntactic grammar: the tokens of a value, of a list of elements separated by
  commas, and of a list of members separated by commas, with what they denote.
\<close>

inductive valueTokens :: "token list \<Rightarrow> json \<Rightarrow> bool"
  and elementTokens :: "token list \<Rightarrow> json list \<Rightarrow> bool"
  and memberTokens :: "token list \<Rightarrow> (jsstring \<times> json) list \<Rightarrow> bool" where
  value_string: "valueTokens [TString s] (JString s)"
| value_number: "valueTokens [TNumber n] (JNumber n)"
| value_true: "valueTokens [TTrue] (JBool True)"
| value_false: "valueTokens [TFalse] (JBool False)"
| value_null: "valueTokens [TNull] JNull"
| value_empty_array: "valueTokens [TLBracket, TRBracket] (JArray [])"
| value_array: "elementTokens ts vs \<Longrightarrow> valueTokens (TLBracket # ts @ [TRBracket]) (JArray vs)"
| value_empty_object: "valueTokens [TLBrace, TRBrace] (JObject [])"
| value_object:
    "memberTokens ts ms \<Longrightarrow> valueTokens (TLBrace # ts @ [TRBrace]) (JObject (objectOf [] ms))"
| elements_one: "valueTokens ts v \<Longrightarrow> elementTokens ts [v]"
| elements_more:
    "valueTokens ts v \<Longrightarrow> elementTokens ts' vs \<Longrightarrow> elementTokens (ts @ TComma # ts') (v # vs)"
| members_one: "valueTokens ts v \<Longrightarrow> memberTokens (TString k # TColon # ts) [(k, v)]"
| members_more:
    "valueTokens ts v \<Longrightarrow> memberTokens ts' ms
       \<Longrightarrow> memberTokens (TString k # TColon # ts @ TComma # ts') ((k, v) # ms)"

definition JSONText :: "jsstring \<Rightarrow> json \<Rightarrow> bool" where
  "JSONText text v = (\<exists>ts. tokens text ts \<and> valueTokens ts v)"

subsection \<open>Notions for the proofs about the grammar\<close>

text \<open>
  The text after a number token when the token is as long as it can be: nothing, or a
  character that cannot continue a number.
\<close>

definition stopsDigits :: "jsstring \<Rightarrow> bool" where
  "stopsDigits r = (r = [] \<or> \<not> isDigit (hd r))"

definition endsNumber :: "jsstring \<Rightarrow> bool" where
  "endsNumber r = (r = [] \<or> (\<not> isDigit (hd r) \<and> hd r \<noteq> 0x2E \<and> hd r \<noteq> 0x65 \<and> hd r \<noteq> 0x45))"

text \<open>Token lists in which no number follows a number directly.\<close>

definition startsWithNumber :: "token list \<Rightarrow> bool" where
  "startsWithNumber ts = (case ts of TNumber n # r \<Rightarrow> True | _ \<Rightarrow> False)"

primrec separated :: "token list \<Rightarrow> bool" where
  "separated [] = True"
| "separated (t # ts) = (\<not> (startsWithNumber [t] \<and> startsWithNumber ts) \<and> separated ts)"

text \<open>
  What the automaton has read when it ends in \<open>Done\<close>: from each of its states, the
  tokens up to the end of the value, array or object under construction form what the
  grammar asks for there, and the automaton goes on with the completed value.
\<close>

definition readsValue :: "frame list \<Rightarrow> token list \<Rightarrow> json \<Rightarrow> bool" where
  "readsValue st ts w =
     (\<exists>ts1 ts2 v. ts = ts1 @ ts2 \<and> valueTokens ts1 v \<and> length ts2 < length ts \<and>
                   run (complete v st) ts2 = Some (Done w))"

definition readsElements :: "json list \<Rightarrow> frame list \<Rightarrow> token list \<Rightarrow> json \<Rightarrow> bool" where
  "readsElements acc st ts w =
     (\<exists>ts1 ts2 vs. ts = ts1 @ TRBracket # ts2 \<and>
                    ((ts1 = [] \<and> vs = []) \<or> (\<exists>r. ts1 = TComma # r \<and> elementTokens r vs)) \<and>
                    run (complete (JArray (acc @ vs)) st) ts2 = Some (Done w))"

definition readsMembers :: "(jsstring \<times> json) list \<Rightarrow> frame list \<Rightarrow> token list \<Rightarrow> json \<Rightarrow> bool" where
  "readsMembers acc st ts w =
     (\<exists>ts1 ts2 ms. ts = ts1 @ TRBrace # ts2 \<and> memberTokens ts1 ms \<and>
                    run (complete (JObject (objectOf acc ms)) st) ts2 = Some (Done w))"

definition readsMoreMembers :: "(jsstring \<times> json) list \<Rightarrow> frame list \<Rightarrow> token list \<Rightarrow> json \<Rightarrow> bool" where
  "readsMoreMembers acc st ts w =
     (\<exists>ts1 ts2 ms. ts = ts1 @ TRBrace # ts2 \<and>
                    ((ts1 = [] \<and> ms = []) \<or> (\<exists>r. ts1 = TComma # r \<and> memberTokens r ms)) \<and>
                    run (complete (JObject (objectOf acc ms)) st) ts2 = Some (Done w))"

section \<open>Regular expressions\<close>

text \<open>
  The two patterns of the module are sequences of atoms, anchored or not at either end:
  an atom is a literal code unit or the dot, which matches any code unit but a line
  terminator. Without the multi-line flag the anchors denote the start and the end of
  the whole input.
\<close>

datatype atom = Lit jschar | AnyChar

record regexp =
  fromStart :: bool
  atoms :: "atom list"
  toEnd :: bool

definition isLineTerminator :: "jschar \<Rightarrow> bool" where
  "isLineTerminator c = (c = 0x0A \<or> c = 0x0D \<or> c = 0x2028 \<or> c = 0x2029)"

fun matchAtom :: "atom \<Rightarrow> jschar \<Rightarrow> bool" where
  "matchAtom (Lit a) c = (c = a)"
| "matchAtom AnyChar c = (\<not> isLineTerminator c)"

text \<open>The atoms matched against the beginning of the input: the input that is left.\<close>

fun matchAtoms :: "atom list \<Rightarrow> jsstring \<Rightarrow> jsstring option" where
  "matchAtoms [] s = Some s"
| "matchAtoms (a # as) [] = None"
| "matchAtoms (a # as) (c # cs) = (if matchAtom a c then matchAtoms as cs else None)"

definition matchHere :: "regexp \<Rightarrow> jsstring \<Rightarrow> jsstring option" where
  "matchHere re s =
     (case matchAtoms (atoms re) s of
        None \<Rightarrow> None
      | Some rest \<Rightarrow> if toEnd re \<and> rest \<noteq> [] then None else Some rest)"

text \<open>
  The first match, from left to right: the input before the match and the input after
  it. \<open>pre\<close> is the input already passed.
\<close>

fun search :: "regexp \<Rightarrow> jsstring \<Rightarrow> jsstring \<Rightarrow> (jsstring \<times> jsstring) option" where
  "search re pre [] =
     (case matchHere re [] of
        None \<Rightarrow> None
      | Some rest \<Rightarrow> Some (pre, rest))"
| "search re pre (c # cs) =
     (case matchHere re (c # cs) of
        None \<Rightarrow> search re (pre @ [c]) cs
      | Some rest \<Rightarrow> Some (pre, rest))"

definition exec :: "regexp \<Rightarrow> jsstring \<Rightarrow> (jsstring \<times> jsstring) option" where
  "exec re s =
     (if fromStart re then
        (case matchHere re s of
           None \<Rightarrow> None
         | Some rest \<Rightarrow> Some ([], rest))
      else search re [] s)"

text \<open>\<open>re.test(s)\<close> and \<open>s.replace(re, replacement)\<close> for a replacement without patterns.\<close>

definition test :: "regexp \<Rightarrow> jsstring \<Rightarrow> bool" where
  "test re s = (exec re s \<noteq> None)"

definition replace :: "jsstring \<Rightarrow> regexp \<Rightarrow> jsstring \<Rightarrow> jsstring" where
  "replace s re replacement =
     (case exec re s of
        None \<Rightarrow> s
      | Some (before, after) \<Rightarrow> before @ replacement @ after)"

section \<open>Resource identifiers\<close>

text \<open>
  Modelled from the spec: the resource identifier \<open>Uri\<close> of the editor is declared
  outside this module. The spec describes it as a generic resource identifier with
  scheme, path and query accessors. The identifier has five components. Its file-system
  path (\<open>fsPath\<close>, the spec's real path) is computed by the editor from the identifier
  and the platform: the functions that read it take it as the parameter \<open>fsPath\<close>.
\<close>

record Uri =
  scheme :: jsstring
  authority :: jsstring
  path :: jsstring
  query :: jsstring
  fragment :: jsstring

record UriChange =
  new_scheme :: "jsstring option"
  new_authority :: "jsstring option"
  new_path :: "jsstring option"
  new_query :: "jsstring option"
  new_fragment :: "jsstring option"

definition orKeep :: "jsstring option \<Rightarrow> jsstring \<Rightarrow> jsstring" where
  "orKeep change old = (case change of None \<Rightarrow> old | Some new \<Rightarrow> new)"

text \<open>
  Modelled from the spec: \<open>Uri.with\<close>, the immutable constructor that returns a
  modified copy. A component that the change gives replaces the old one; a component
  that the change does not give is kept.
\<close>

definition uri_with :: "Uri \<Rightarrow> UriChange \<Rightarrow> Uri" where
  "uri_with u change =
     \<lparr>scheme = orKeep (new_scheme change) (scheme u),
      authority = orKeep (new_authority change) (authority u),
      path = orKeep (new_path change) (path u),
      query = orKeep (new_query change) (query u),
      fragment = orKeep (new_fragment change) (fragment u)\<rparr>"

text \<open>The change \<open>{...uri}\<close>: every component, as the identifier has it.\<close>

definition spreadUri :: "Uri \<Rightarrow> UriChange" where
  "spreadUri u =
     \<lparr>new_scheme = Some (scheme u),
      new_authority = Some (authority u),
      new_path = Some (path u),
      new_query = Some (query u),
      new_fragment = Some (fragment u)\<rparr>"

text \<open>
  Modelled from the spec: the real path of an identifier (\<open>uri.fsPath\<close>), which the
  editor computes outside this module. The spec names it and does not define it; the
  definition follows the editor's documentation of \<open>fsPath\<close>. For the scheme \<open>file\<close>
  with an authority it is the UNC form: two slashes, the authority and the path. A path
  that begins with a slash, a drive letter and a colon loses the slash and has the letter
  in lower case. Any other path is kept. On Windows every slash then becomes a backslash.
\<close>

definition isLetter :: "jschar \<Rightarrow> bool" where
  "isLetter c = ((0x41 \<le> c \<and> c \<le> 0x5A) \<or> (0x61 \<le> c \<and> c \<le> 0x7A))"

definition toLowerCase :: "jschar \<Rightarrow> jschar" where
  "toLowerCase c = (if 0x41 \<le> c \<and> c \<le> 0x5A then c + 0x20 else c)"

definition uriToFsPath :: "bool \<Rightarrow> Uri \<Rightarrow> jsstring" where
  "uriToFsPath isWindows u =
     (let value =
            (if authority u \<noteq> [] \<and> 1 < length (path u) \<and> scheme u = js ''file''
             then js ''//'' @ authority u @ path u
             else
               (case path u of
                  s # l # c # r \<Rightarrow>
                    if s = 0x2F \<and> isLetter l \<and> c = 0x3A then toLowerCase l # c # r
                    else path u
                | _ \<Rightarrow> path u))
      in if isWindows then map (\<lambda>c. if c = 0x2F then 0x5C else c) value else value)"

section \<open>The file system and the effects of a call\<close>

text \<open>
  \<open>fs.realpathSync\<close> is a call into the platform. The state of the file system is a
  parameter of the model: \<open>realpath_of\<close> gives, for each argument, the canonical path
  or the error the call raises, and \<open>lookups\<close> records the calls made, in order. The
  argument is the value the program passes: a string in \<open>resolvePath\<close>, and whatever
  the member \<open>path\<close> of a parsed query is in \<open>fromGitUriAndResolve\<close>, where \<open>None\<close>
  stands for \<open>undefined\<close>.
\<close>

record fileSystem =
  realpath_of :: "json option \<Rightarrow> js_error + jsstring"
  lookups :: "json option list"

text \<open>
  A computation takes the file system and gives the value it returns or the error it
  raises, and the file system after it. \<open>returns\<close> is \<open>return\<close>; \<open>outcome\<close> is an
  expression that reads no file and may raise; \<open>andThen\<close> is sequencing, in which an
  error of the first part leaves the second part out; \<open>tryCatch\<close> is \<open>try\<close> with its
  \<open>catch\<close>.
\<close>

type_synonym 'a io = "fileSystem \<Rightarrow> (js_error + 'a) \<times> fileSystem"

definition returns :: "'a \<Rightarrow> 'a io" where
  "returns x fs = (Inr x, fs)"

definition outcome :: "js_error + 'a \<Rightarrow> 'a io" where
  "outcome r fs = (r, fs)"

definition andThen :: "'a io \<Rightarrow> ('a \<Rightarrow> 'b io) \<Rightarrow> 'b io" where
  "andThen first next fs =
     (case first fs of
        (Inl e, fs') \<Rightarrow> (Inl e, fs')
      | (Inr x, fs') \<Rightarrow> next x fs')"

definition tryCatch :: "'a io \<Rightarrow> (js_error \<Rightarrow> 'a io) \<Rightarrow> 'a io" where
  "tryCatch body handler fs =
     (case body fs of
        (Inl e, fs') \<Rightarrow> handler e fs'
      | (Inr x, fs') \<Rightarrow> (Inr x, fs'))"

definition realpathSync :: "json option \<Rightarrow> jsstring io" where
  "realpathSync arg fs = (realpath_of fs arg, fs\<lparr>lookups := lookups fs @ [arg]\<rparr>)"

section \<open>The module \<open>uri.ts\<close>\<close>

subsection \<open>Locator codec\<close>

text \<open>\<open>GitUriParams\<close> is the JSON object with the members path, ref and submoduleOf.\<close>

text \<open>The pattern \<open>/^git$/\<close>: the start, then g, i, t, then the end.\<close>

definition gitOnly :: regexp where
  "gitOnly = \<lparr>fromStart = True, atoms = [Lit 0x67, Lit 0x69, Lit 0x74], toEnd = True\<rparr>"

definition isGitUri :: "Uri \<Rightarrow> bool" where
  "isGitUri uri = test gitOnly (scheme uri)"

definition fromGitUri :: "Uri \<Rightarrow> js_error + json" where
  "fromGitUri uri = JSON_parse (query uri)"

record GitUriOptions =
  replaceFileExtension :: "bool option"
  submoduleOf :: "jsstring option"

text \<open>The default \<open>{}\<close> of the options.\<close>

definition noOptions :: GitUriOptions where
  "noOptions = \<lparr>replaceFileExtension = None, submoduleOf = None\<rparr>"

text \<open>An optional string in a condition: absent and the empty string count as false.\<close>

definition truthy :: "jsstring option \<Rightarrow> bool" where
  "truthy s = (case s of None \<Rightarrow> False | Some t \<Rightarrow> t \<noteq> [])"

text \<open>
  The member submoduleOf is attached under the condition \<open>options.submoduleOf\<close>, that is,
  when it is present and not empty; the suffix is chosen under \<open>options.replaceFileExtension\<close>
  and then under \<open>options.submoduleOf\<close>.
\<close>

definition toGitUri :: "(Uri \<Rightarrow> jsstring) \<Rightarrow> Uri \<Rightarrow> jsstring \<Rightarrow> GitUriOptions \<Rightarrow> Uri" where
  "toGitUri fsPath uri ref options =
     (let params = [(js ''path'', JString (fsPath uri)), (js ''ref'', JString ref)];
          params' =
            (case submoduleOf options of
               None \<Rightarrow> params
             | Some s \<Rightarrow>
                 if s \<noteq> [] then defineProperty (js ''submoduleOf'') (JString s) params
                 else params);
          path' =
            (if replaceFileExtension options = Some True then path uri @ js ''.git''
             else if truthy (submoduleOf options) then path uri @ js ''.diff''
             else path uri)
      in uri_with uri
           \<lparr>new_scheme = Some (js ''git''),
            new_authority = None,
            new_path = Some path',
            new_query = Some (JSON_stringify (JObject params')),
            new_fragment = None\<rparr>)"

record MergeUris =
  base :: Uri
  ours :: Uri
  theirs :: Uri

definition toMergeUris :: "(Uri \<Rightarrow> jsstring) \<Rightarrow> Uri \<Rightarrow> MergeUris" where
  "toMergeUris fsPath uri =
     \<lparr>base = toGitUri fsPath uri (js '':1'') noOptions,
      ours = toGitUri fsPath uri (js '':2'') noOptions,
      theirs = toGitUri fsPath uri (js '':3'') noOptions\<rparr>"

subsection \<open>Decoding with resolution\<close>

text \<open>
  The value of \<open>parsedQuery.path\<close>: reading a member of null raises a \<open>TypeError\<close>; an
  object has the member it was given; an array, a string, a number and a boolean have
  no member of that name.
\<close>

definition memberPath :: "json \<Rightarrow> js_error + json option" where
  "memberPath v =
     (case v of
        JNull \<Rightarrow> Inl TypeError
      | JObject ms \<Rightarrow> Inr (map_of ms (js ''path''))
      | _ \<Rightarrow> Inr None)"

text \<open>The decimal numeral of an index.\<close>

fun indexKey :: "nat \<Rightarrow> jsstring" where
  "indexKey n =
     (if n < 10 then [of_nat (48 + n)]
      else indexKey (n div 10) @ [of_nat (48 + n mod 10)])"

text \<open>
  The properties that \<open>{...v}\<close> copies: the members of an object, the elements of an
  array and the code units of a string under their indices, nothing for the other values.
\<close>

definition ownProperties :: "json \<Rightarrow> (jsstring \<times> json) list" where
  "ownProperties v =
     (case v of
        JObject ms \<Rightarrow> ms
      | JArray vs \<Rightarrow> zip (map indexKey [0..<length vs]) vs
      | JString s \<Rightarrow> zip (map indexKey [0..<length s]) (map (\<lambda>c. JString [c]) s)
      | _ \<Rightarrow> [])"

text \<open>
  The query is parsed before the \<open>try\<close>: a syntax error is raised to the caller. In the
  \<open>try\<close> the object \<open>{...parsedQuery, path: fs.realpathSync(parsedQuery.path)}\<close> is
  built; the \<open>catch\<close> returns the parsed query.
\<close>

definition fromGitUriAndResolve :: "Uri \<Rightarrow> json io" where
  "fromGitUriAndResolve uri =
     andThen (outcome (JSON_parse (query uri))) (\<lambda>parsedQuery.
       tryCatch
         (andThen (outcome (memberPath parsedQuery)) (\<lambda>p.
          andThen (realpathSync p) (\<lambda>resolved.
          returns (JObject (defineProperty (js ''path'') (JString resolved)
                              (ownProperties parsedQuery))))))
         (\<lambda>e. returns parsedQuery))"

subsection \<open>Path resolver\<close>

definition resolvePath :: "jsstring \<Rightarrow> jsstring io" where
  "resolvePath p = tryCatch (realpathSync (Some (JString p))) (\<lambda>e. returns p)"

definition resolveUri :: "Uri \<Rightarrow> Uri io" where
  "resolveUri uri =
     andThen (resolvePath (path uri)) (\<lambda>p.
       returns (uri_with uri ((spreadUri uri)\<lparr>new_path := Some p\<rparr>)))"

text \<open>The pattern \<open>/.git$/\<close>: any code unit but a line terminator, then g, i, t, then the end.\<close>

definition dotGit :: regexp where
  "dotGit = \<lparr>fromStart = False, atoms = [AnyChar, Lit 0x67, Lit 0x69, Lit 0x74], toEnd = True\<rparr>"

definition resolveUriWithGitScheme :: "Uri \<Rightarrow> Uri io" where
  "resolveUriWithGitScheme uri =
     tryCatch
       (let endsInGit = test dotGit (path uri) in
        andThen
          (resolvePath (if endsInGit then replace (path uri) dotGit [] else path uri))
          (\<lambda>oldPathResolved.
             let newUriObj =
                   (spreadUri uri)
                     \<lparr>new_path := Some (if endsInGit then oldPathResolved @ js ''.git''
                                        else oldPathResolved)\<rparr>
             in if query uri \<noteq> [] then
                  andThen (fromGitUriAndResolve uri) (\<lambda>params.
                    returns (uri_with uri (newUriObj\<lparr>new_query := Some (JSON_stringify params)\<rparr>)))
                else returns (uri_with uri newUriObj)))
       (\<lambda>e. returns uri)"

subsection \<open>Batch resolution\<close>

text \<open>
  A workspace folder has an identifier, a name and an index. A text document is a record
  with an identifier and further fields, and a text editor a record with a document and
  further fields; the further fields are the extension part of the record, which a record
  update copies.
\<close>

record resource =
  uri :: Uri

record WorkspaceFolder = resource +
  name :: jsstring
  index :: nat

record 'd TextEditor =
  document :: 'd

text \<open>The loop \<open>workspaceFolders.forEach\<close>, with the array \<open>newFolders\<close> it fills.\<close>

fun forEachFolder ::
  "'a WorkspaceFolder_scheme list \<Rightarrow> 'a WorkspaceFolder_scheme list
     \<Rightarrow> 'a WorkspaceFolder_scheme list io" where
  "forEachFolder newFolders [] = returns newFolders"
| "forEachFolder newFolders (folder # rest) =
     andThen (resolvePath (path (uri folder))) (\<lambda>p.
       forEachFolder
         (newFolders @
            [folder\<lparr>uri := uri_with (uri folder) ((spreadUri (uri folder))\<lparr>new_path := Some p\<rparr>)\<rparr>])
         rest)"

definition resolveWorkspaceFolders ::
  "'a WorkspaceFolder_scheme list option \<Rightarrow> 'a WorkspaceFolder_scheme list io" where
  "resolveWorkspaceFolders workspaceFolders =
     (case workspaceFolders of
        None \<Rightarrow> returns []
      | Some folders \<Rightarrow> forEachFolder [] folders)"

text \<open>The loop \<open>editors.forEach\<close>, with the array \<open>newEditors\<close> it fills.\<close>

fun forEachEditor ::
  "('a resource_scheme, 'b) TextEditor_scheme list
     \<Rightarrow> ('a resource_scheme, 'b) TextEditor_scheme list
     \<Rightarrow> ('a resource_scheme, 'b) TextEditor_scheme list io" where
  "forEachEditor newEditors [] = returns newEditors"
| "forEachEditor newEditors (editor # rest) =
     andThen (resolveUri (uri (document editor))) (\<lambda>u.
       forEachEditor
         (newEditors @ [editor\<lparr>document := (document editor)\<lparr>uri := u\<rparr>\<rparr>])
         rest)"

definition resolveWindowVisibleTextEditors ::
  "('a resource_scheme, 'b) TextEditor_scheme list
     \<Rightarrow> ('a resource_scheme, 'b) TextEditor_scheme list io" where
  "resolveWindowVisibleTextEditors editors = forEachEditor [] editors"

section \<open>Concrete inputs\<close>

text \<open>
  Identifiers and a file system on which the statements below are evaluated. In the file
  system \<open>/link\<close> is a symbolic link to \<open>/real\<close>; every other path does not exist.
\<close>

definition exampleUri :: Uri where
  "exampleUri =
     \<lparr>scheme = js ''file'', authority = [], path = js ''/repo/a.txt'', query = [],
      fragment = []\<rparr>"

definition linkUri :: Uri where
  "linkUri =
     \<lparr>scheme = js ''file'', authority = [], path = js ''/link/a'', query = [], fragment = []\<rparr>"

definition goneUri :: Uri where
  "goneUri =
     \<lparr>scheme = js ''file'', authority = [], path = js ''/gone'', query = [], fragment = []\<rparr>"

definition gitLinkUri :: Uri where
  "gitLinkUri =
     \<lparr>scheme = js ''git'', authority = [], path = js ''/link/a.git'', query = [],
      fragment = []\<rparr>"

definition brokenUri :: Uri where
  "brokenUri =
     \<lparr>scheme = js ''git'', authority = [], path = js ''/link/a.git'', query = js ''HEAD'',
      fragment = []\<rparr>"

definition nullUri :: Uri where
  "nullUri =
     \<lparr>scheme = js ''git'', authority = [], path = js ''/link/a'', query = js ''null'',
      fragment = []\<rparr>"

definition digitUri :: Uri where
  "digitUri =
     \<lparr>scheme = js ''git'', authority = [], path = js ''/repo/digit'', query = [],
      fragment = []\<rparr>"

definition exampleLinks :: "(json option \<times> jsstring) list" where
  "exampleLinks =
     [(Some (JString (js ''/link/a'')), js ''/real/a''),
      (Some (JString (js ''/link'')), js ''/real'')]"

definition exampleRealpath :: "json option \<Rightarrow> js_error + jsstring" where
  "exampleRealpath arg =
     (case map_of exampleLinks arg of
        None \<Rightarrow> Inl (SystemError (js ''ENOENT''))
      | Some target \<Rightarrow> Inr target)"

definition exampleFs :: fileSystem where
  "exampleFs = \<lparr>realpath_of = exampleRealpath, lookups = []\<rparr>"

definition exampleFolders :: "WorkspaceFolder list" where
  "exampleFolders =
     [\<lparr>uri = linkUri, name = js ''a'', index = 0\<rparr>,
      \<lparr>uri = goneUri, name = js ''gone'', index = 1\<rparr>]"

text \<open>A file on a drive, as the editor names it on Windows and in a remote workspace.\<close>

definition driveUri :: Uri where
  "driveUri =
     \<lparr>scheme = js ''file'', authority = [], path = js ''/C:/Repo/a.txt'', query = [],
      fragment = []\<rparr>"

section \<open>Properties of the runtime model\<close>

subsection \<open>Parsing a quoted string gives the string back\<close>

lemma unat_of_nat16: "m < 65536 \<Longrightarrow> unat (of_nat m :: 16 word) = m"
  by (simp add: unat_of_nat)

lemma unat_hexDigit: "n < 16 \<Longrightarrow> unat (hexDigit n) = (if n < 10 then 48 + n else 87 + n)"
  unfolding hexDigit_def by (simp only: unat_of_nat16 if_distrib split: if_splits) auto

lemma hexVal_hexDigit: "n < 16 \<Longrightarrow> hexVal (hexDigit n) = Some n"
  by (simp add: hexVal_def word_le_nat_alt unat_hexDigit)

lemma nibbles16:
  fixes x :: nat
  shows "((x div 4096 * 16 + x div 256 mod 16) * 16 + x div 16 mod 16) * 16 + x mod 16 = x"
proof -
  have a: "x div 256 = x div 16 div 16" and b: "x div 4096 = x div 16 div 16 div 16"
    by (simp_all add: div_mult2_eq [symmetric])
  show ?thesis unfolding a b by (simp add: div_mult_mod_eq)
qed

lemma hex4_UnicodeEscape:
  "hex4 (hexDigit (unat c div 4096)) (hexDigit (unat c div 256 mod 16))
        (hexDigit (unat c div 16 mod 16)) (hexDigit (unat c mod 16)) = Some (c::jschar)"
proof -
  have b: "unat c < 65536" using unsigned_less [of c, where ?'a = nat] by simp
  then have d: "unat c div 4096 < 16" by simp
  have v: "hexVal (hexDigit (unat c div 4096)) = Some (unat c div 4096)"
      "hexVal (hexDigit (unat c div 256 mod 16)) = Some (unat c div 256 mod 16)"
      "hexVal (hexDigit (unat c div 16 mod 16)) = Some (unat c div 16 mod 16)"
      "hexVal (hexDigit (unat c mod 16)) = Some (unat c mod 16)"
    by (simp_all add: hexVal_hexDigit d)
  show ?thesis
    unfolding hex4_def v by (simp only: nibbles16 prod.case option.case) simp
qed

lemma scanString_UnicodeEscape:
  "scanString (UnicodeEscape c @ r) = consChar c (scanString r)"
  by (simp add: UnicodeEscape_def hex4_UnicodeEscape)

lemma scanString_literal:
  "c \<noteq> 0x22 \<Longrightarrow> c \<noteq> 0x5C \<Longrightarrow> \<not> c < 0x20 \<Longrightarrow> scanString (c # r) = consChar c (scanString r)"
  by simp

lemma surrogate_literal:
  "0xD800 \<le> (c::jschar) \<Longrightarrow> c \<noteq> 0x22 \<and> c \<noteq> 0x5C \<and> \<not> c < 0x20"
  by (auto simp: word_le_nat_alt word_less_nat_alt)

lemma scanString_surrogate:
  "0xD800 \<le> c \<Longrightarrow> scanString (c # r) = consChar c (scanString r)"
  using surrogate_literal [of c] by simp

lemma simpleEscape_tableEscape: "tableEscape c = Some e \<Longrightarrow> simpleEscape e = Some c"
  by (simp add: tableEscape_def simpleEscape_def split: if_splits)

lemma tableEscape_u: "tableEscape c = Some e \<Longrightarrow> e \<noteq> 0x75"
  by (simp add: tableEscape_def split: if_splits)

lemma tableEscape_None: "tableEscape c = None \<Longrightarrow> c \<noteq> 0x22 \<and> c \<noteq> 0x5C"
  by (simp add: tableEscape_def split: if_splits)

lemma scanString_tableEscape:
  "tableEscape c = Some e \<Longrightarrow> scanString (0x5C # e # r) = consChar c (scanString r)"
  by (simp add: simpleEscape_tableEscape tableEscape_u)

lemma scanString_close: "scanString (0x22 # r) = Some ([], r)"
  by simp

lemma consChar_Some: "consChar c (Some (s, r)) = Some (c # s, r)"
  by (simp add: consChar_def)

lemma scanString_quoteChars:
  "scanString (quoteChars s @ 0x22 # rest) = Some (s, rest)"
proof (induction s rule: quoteChars.induct)
  case 1
  show ?case by simp
next
  case (2 c cs)
  show ?case
  proof (cases "tableEscape c")
    case (Some e)
    from 2 show ?thesis
      using Some by (simp add: scanString_tableEscape consChar_Some del: scanString.simps)
  next
    case None
    note lit = tableEscape_None [OF None]
    show ?thesis
    proof (cases "c < 0x20")
      case True
      from 2 show ?thesis using None True
        by (simp add: scanString_UnicodeEscape consChar_Some del: scanString.simps)
    next
      case ctl: False
      show ?thesis
      proof (cases "isLeadingSurrogate c")
        case lead: True
        then have hi: "0xD800 \<le> c" by (simp add: isLeadingSurrogate_def)
        show ?thesis
        proof (cases cs)
          case Nil
          then show ?thesis using None ctl lead
            by (simp add: scanString_UnicodeEscape scanString_close consChar_Some
                del: scanString.simps)
        next
          case (Cons d ds)
          show ?thesis
          proof (cases "isTrailingSurrogate d")
            case True
            then have "0xC000 \<le> d"
              by (simp add: isTrailingSurrogate_def word_le_nat_alt)
            then have hd: "0xD800 \<le> d" using True
              by (simp add: isTrailingSurrogate_def word_le_nat_alt)
            from 2 show ?thesis
              using None ctl lead Cons True hi hd
              by (simp add: scanString_surrogate consChar_Some del: scanString.simps)
          next
            case False
            from 2 show ?thesis
              using None ctl lead Cons False
              by (simp add: scanString_UnicodeEscape consChar_Some del: scanString.simps)
          qed
        qed
      next
        case nolead: False
        show ?thesis
        proof (cases "isTrailingSurrogate c")
          case True
          from 2 show ?thesis
            using None ctl nolead True
            by (simp add: scanString_UnicodeEscape consChar_Some del: scanString.simps)
        next
          case False
          from 2 show ?thesis
            using None ctl nolead False lit
            by (simp add: scanString_literal consChar_Some del: scanString.simps)
        qed
      qed
    qed
  qed
qed

lemma tokenize_string:
  "tokenize (0x22 # quoteChars s @ 0x22 # rest) = consToken (TString s) (tokenize rest)"
  by (simp add: isWhiteSpace_def scanString_quoteChars)

lemma tokenize_punct:
  "tokenize (0x7B # r) = consToken TLBrace (tokenize r)"
  "tokenize (0x7D # r) = consToken TRBrace (tokenize r)"
  "tokenize (0x3A # r) = consToken TColon (tokenize r)"
  "tokenize (0x2C # r) = consToken TComma (tokenize r)"
  by (simp_all add: isWhiteSpace_def)

lemma tokenize_Nil: "tokenize [] = Some []"
  by simp

lemma consToken_Some: "consToken t (Some ts) = Some (t # ts)"
  by (simp add: consToken_def)

lemma arrayIndex_path: "arrayIndex (js ''path'') = None"
  "arrayIndex (js ''ref'') = None" "arrayIndex (js ''submoduleOf'') = None"
  by (simp_all add: arrayIndex_def js_def isDigit_def)

lemma keys_distinct:
  "js ''path'' \<noteq> js ''ref''" "js ''ref'' \<noteq> js ''path''"
  "js ''submoduleOf'' \<noteq> js ''path''" "js ''path'' \<noteq> js ''submoduleOf''"
  "js ''submoduleOf'' \<noteq> js ''ref''" "js ''ref'' \<noteq> js ''submoduleOf''"
  by (simp_all add: js_def)

lemma parse_params:
  "JSON_parse (JSON_stringify (JObject [(js ''path'', JString p), (js ''ref'', JString r)])) =
     Inr (JObject [(js ''path'', JString p), (js ''ref'', JString r)])"
  by (simp add: JSON_parse_def QuoteJSONString_def tokenize_string tokenize_punct consToken_Some
      defineProperty_def arrayIndex_path keys_distinct del: tokenize.simps(2))

lemma parse_params_submodule:
  "JSON_parse (JSON_stringify (JObject [(js ''path'', JString p), (js ''ref'', JString r),
       (js ''submoduleOf'', JString m)])) =
     Inr (JObject [(js ''path'', JString p), (js ''ref'', JString r), (js ''submoduleOf'', JString m)])"
  by (simp add: JSON_parse_def QuoteJSONString_def tokenize_string tokenize_punct consToken_Some
      defineProperty_def arrayIndex_path keys_distinct del: tokenize.simps(2))


subsection \<open>The parser and the serialiser on examples\<close>

lemmas evaluate =
  JSON_parse_def js_def consToken_def consChar_def isWhiteSpace_def defineProperty_def
  arrayIndex_def decimalValue_def isDigit_def lexNumber_def lexMinus_def lexInt_def lexFrac_def
  lexExp_def lexSign_def hex4_def hexVal_def simpleEscape_def

text \<open>Nesting, white space, a repeated key (the last value, at the first place), an index key.\<close>

lemma parse_nested:
  "JSON_parse (js '' { \"b\" : [1, -2.5e+3, true, null, {\"c\": \"x\"}], \"1\": false, \"b\": [] } '') =
     Inr (JObject [(js ''1'', JBool False), (js ''b'', JArray [])])"
  by (simp add: evaluate)

lemma parse_arrays:
  "JSON_parse (js ''[[], {}, [1, [\"a\"]], 0]'') =
     Inr (JArray [JArray [], JObject [], JArray [JNumber (js ''1''), JArray [JString (js ''a'')]],
                  JNumber (js ''0'')])"
  by (simp add: evaluate)

text \<open>A string with a hexadecimal escape, a line feed escape and an escaped backslash.\<close>

lemma parse_escapes:
  "JSON_parse ([0x22, 0x5C] @ js ''u00e9'' @ [0x5C] @ js ''n'' @ [0x5C, 0x5C, 0x22]) =
     Inr (JString [0xE9, 0x0A, 0x5C])"
  by (simp add: evaluate)

lemma parse_rejects:
  "JSON_parse (js ''[1,]'') = Inl SyntaxError"
  "JSON_parse (js ''{\"a\":1,}'') = Inl SyntaxError"
  "JSON_parse (js ''{\"a\" 1}'') = Inl SyntaxError"
  "JSON_parse (js ''01'') = Inl SyntaxError"
  "JSON_parse (js ''1.'') = Inl SyntaxError"
  "JSON_parse (js ''nul'') = Inl SyntaxError"
  "JSON_parse (js ''[1] 2'') = Inl SyntaxError"
  "JSON_parse (js ''[[]'') = Inl SyntaxError"
  "JSON_parse (js ''\"abc'') = Inl SyntaxError"
  "JSON_parse (js ''{path:1}'') = Inl SyntaxError"
  by (simp_all add: evaluate)

text \<open>The query of the spec's example.\<close>

lemma stringify_example:
  "JSON_stringify (JObject [(js ''path'', JString (js ''/repo/a.txt'')), (js ''ref'', JString (js ''abc123''))]) =
     js ''{\"path\":\"/repo/a.txt\",\"ref\":\"abc123\"}''"
  by (simp add: js_def QuoteJSONString_def tableEscape_def isLeadingSurrogate_def isTrailingSurrogate_def)

subsection \<open>The scanners and the lexical grammar\<close>

lemma simpleEscape_not_u: "simpleEscape e = Some c \<Longrightarrow> e \<noteq> 0x75"
  by (simp add: simpleEscape_def split: if_splits)

lemma simpleEscape_table: "simpleEscape e = map_of escapeCharacters e"
  by (simp add: simpleEscape_def escapeCharacters_def)

lemma hexValue_nat:
  "(if 48 \<le> n \<and> n \<le> 57 then Some (n - 48)
    else if 97 \<le> n \<and> n \<le> 102 then Some (n - 87)
    else if 65 \<le> n \<and> n \<le> 70 then Some (n - 55)
    else None) =
   map_of [(48, 0), (49, 1), (50, 2), (51, 3), (52, 4), (53, 5), (54, 6), (55, 7), (56, 8),
           (57, 9), (97, 10), (98, 11), (99, 12), (100, 13), (101, 14), (102, 15),
           (65, 10), (66, 11), (67, 12), (68, 13), (69, 14), (70, 15)] (n::nat)"
  by simp arith

lemma hexVal_table: "hexVal c = map_of hexDigits c"
proof -
  have "map_of hexDigits c =
    map_of [(48, 0), (49, 1), (50, 2), (51, 3), (52, 4), (53, 5), (54, 6), (55, 7), (56, 8),
           (57, 9), (97, 10), (98, 11), (99, 12), (100, 13), (101, 14), (102, 15),
           (65, 10), (66, 11), (67, 12), (68, 13), (69, 14), (70, 15)] (unat c)"
    by (simp add: hexDigits_def word_unat_eq_iff)
  moreover have "hexVal c =
    (if 48 \<le> unat c \<and> unat c \<le> 57 then Some (unat c - 48)
     else if 97 \<le> unat c \<and> unat c \<le> 102 then Some (unat c - 87)
     else if 65 \<le> unat c \<and> unat c \<le> 70 then Some (unat c - 55)
     else None)"
    by (simp add: hexVal_def word_le_nat_alt)
  ultimately show ?thesis by (simp only: hexValue_nat)
qed

lemma hex4_table:
  "(hex4 a b x y = Some c) =
   (\<exists>h3 h2 h1 h0. map_of hexDigits a = Some h3 \<and> map_of hexDigits b = Some h2 \<and>
      map_of hexDigits x = Some h1 \<and> map_of hexDigits y = Some h0 \<and>
      c = of_nat (h3 * 4096 + h2 * 256 + h1 * 16 + h0))"
proof -
  have "((h3 * 16 + h2) * 16 + h1) * 16 + h0 = h3 * 4096 + h2 * 256 + h1 * 16 + h0"
    for h3 h2 h1 h0 :: nat
    by simp
  then show ?thesis
    by (cases "map_of hexDigits a"; cases "map_of hexDigits b"; cases "map_of hexDigits x";
        cases "map_of hexDigits y") (auto simp: hex4_def hexVal_table)
qed

lemma chars_simpleEscape:
  "simpleEscape e = Some c \<Longrightarrow> stringCharacters body s
     \<Longrightarrow> stringCharacters (0x5C # e # body) (c # s)"
  by (simp add: simpleEscape_table chars_escape)

lemma chars_hex4:
  "hex4 a b x y = Some c \<Longrightarrow> stringCharacters body s
     \<Longrightarrow> stringCharacters (0x5C # 0x75 # a # b # x # y # body) (c # s)"
proof -
  assume h: "hex4 a b x y = Some c" and b: "stringCharacters body s"
  from h obtain h3 h2 h1 h0 where d: "map_of hexDigits a = Some h3"
    "map_of hexDigits b = Some h2" "map_of hexDigits x = Some h1" "map_of hexDigits y = Some h0"
    and c: "c = of_nat (h3 * 4096 + h2 * 256 + h1 * 16 + h0)"
    unfolding hex4_table by blast
  show ?thesis unfolding c using d b by (rule chars_unicode)
qed

lemma consChar_eq_Some:
  "(consChar c x = Some (s, r)) = (\<exists>s'. x = Some (s', r) \<and> s = c # s')"
  by (cases x) (auto simp: consChar_def)

lemma scanString_complete:
  "stringCharacters body s \<Longrightarrow> scanString (body @ 0x22 # r) = Some (s, r)"
proof (induction rule: stringCharacters.induct)
  case chars_empty
  show ?case by simp
next
  case (chars_plain c body s)
  then show ?case by (simp add: consChar_def)
next
  case (chars_escape e c body s)
  then have "simpleEscape e = Some c" by (simp add: simpleEscape_table)
  with chars_escape show ?case using simpleEscape_not_u [of e c] by (simp add: consChar_def)
next
  case (chars_unicode a h3 b h2 x h1 y h0 body s)
  then have "hex4 a b x y = Some (of_nat (h3 * 4096 + h2 * 256 + h1 * 16 + h0))"
    unfolding hex4_table by blast
  with chars_unicode show ?case by (simp add: consChar_def)
qed

lemma scanString_cases:
  assumes "scanString cs = Some (s, r)"
  obtains
      (quote) "s = []" "cs = 0x22 # r"
    | (plain) c t s' where "cs = c # t" "c \<noteq> 0x22" "c \<noteq> 0x5C" "\<not> c < 0x20"
        "scanString t = Some (s', r)" "s = c # s'"
    | (escape) e c t s' where "cs = 0x5C # e # t" "simpleEscape e = Some c"
        "scanString t = Some (s', r)" "s = c # s'"
    | (unicode) a b x y c t s' where "cs = 0x5C # 0x75 # a # b # x # y # t"
        "hex4 a b x y = Some c" "scanString t = Some (s', r)" "s = c # s'"
proof (cases cs)
  case Nil
  with assms show ?thesis by simp
next
  case (Cons c t)
  show ?thesis
  proof (cases "c = 0x22")
    case True
    with assms Cons show ?thesis using quote by simp
  next
    case nq: False
    show ?thesis
    proof (cases "c = 0x5C")
      case False
      with nq assms Cons have "\<not> c < 0x20" "consChar c (scanString t) = Some (s, r)"
        by (simp_all split: if_splits)
      with nq False Cons show ?thesis using plain [of c t] by (auto simp: consChar_eq_Some)
    next
      case bs: True
      show ?thesis
      proof (cases t)
        case Nil
        with bs assms Cons show ?thesis by simp
      next
        case t: (Cons e t1)
        show ?thesis
        proof (cases "e = 0x75")
          case False
          with bs assms Cons t obtain u where "simpleEscape e = Some u"
            "consChar u (scanString t1) = Some (s, r)"
            by (simp split: option.splits)
          with bs Cons t show ?thesis using escape [of e t1 u] by (auto simp: consChar_eq_Some)
        next
          case u: True
          from bs u assms Cons t obtain a b x y t2 where t1: "t1 = a # b # x # y # t2"
            by (simp split: list.splits)
          with bs u assms Cons t obtain uu where "hex4 a b x y = Some uu"
            "consChar uu (scanString t2) = Some (s, r)"
            by (simp split: option.splits)
          with bs u Cons t t1 show ?thesis
            using unicode [of a b x y t2 uu] by (auto simp: consChar_eq_Some)
        qed
      qed
    qed
  qed
qed

lemma scanString_sound:
  "scanString cs = Some (s, r) \<Longrightarrow> \<exists>body. cs = body @ 0x22 # r \<and> stringCharacters body s"
proof (induction cs arbitrary: s rule: length_induct)
  case (1 cs)
  note IH = 1(1) [rule_format]
  from 1(2) show ?case
  proof (cases rule: scanString_cases)
    case quote
    have "cs = [] @ 0x22 # r \<and> stringCharacters [] s"
      using quote chars_empty by simp
    then show ?thesis by blast
  next
    case (plain c t s')
    from IH [of t s'] plain obtain body where b: "t = body @ 0x22 # r" "stringCharacters body s'"
      by auto
    have "cs = (c # body) @ 0x22 # r \<and> stringCharacters (c # body) s"
      using plain b chars_plain [of c body s'] by simp
    then show ?thesis by blast
  next
    case (escape e c t s')
    from IH [of t s'] escape obtain body where b: "t = body @ 0x22 # r" "stringCharacters body s'"
      by auto
    have "cs = (0x5C # e # body) @ 0x22 # r \<and> stringCharacters (0x5C # e # body) s"
      using escape b chars_simpleEscape [of e c body s'] by simp
    then show ?thesis by blast
  next
    case (unicode a b x y c t s')
    from IH [of t s'] unicode obtain body where b: "t = body @ 0x22 # r" "stringCharacters body s'"
      by auto
    have "cs = (0x5C # 0x75 # a # b # x # y # body) @ 0x22 # r \<and>
          stringCharacters (0x5C # 0x75 # a # b # x # y # body) s"
      using unicode b chars_hex4 [of a b x y c body s'] by simp
    then show ?thesis by blast
  qed
qed

lemma isDigit_table: "isDigit c = (c \<in> set decimalDigits)"
proof -
  have "(48 \<le> n \<and> n \<le> 57) =
        (n = 48 \<or> n = 49 \<or> n = 50 \<or> n = 51 \<or> n = 52 \<or> n = 53 \<or> n = 54 \<or> n = 55 \<or>
         n = 56 \<or> n = 57)" for n :: nat
    by arith
  then show ?thesis
    by (simp add: isDigit_def decimalDigits_def js_def word_le_nat_alt word_unat_eq_iff)
qed

lemma isDigits_alt: "isDigits d = (d \<noteq> [] \<and> list_all isDigit d)"
  by (simp add: isDigits_def isDigit_table [symmetric])

lemma takeWhile_digits:
  "list_all isDigit d \<Longrightarrow> stopsDigits r \<Longrightarrow> takeWhile isDigit (d @ r) = d"
  by (induction d) (auto simp: stopsDigits_def takeWhile_eq_Nil_iff)

lemma dropWhile_digits:
  "list_all isDigit d \<Longrightarrow> stopsDigits r \<Longrightarrow> dropWhile isDigit (d @ r) = r"
  by (induction d) (auto simp: stopsDigits_def dropWhile_eq_self_iff)

lemma isDigit_special:
  "\<not> isDigit 0x2E" "\<not> isDigit 0x65" "\<not> isDigit 0x45" "\<not> isDigit 0x2D" "\<not> isDigit 0x2B"
  "isDigit 0x30"
  by (simp_all add: isDigit_def)

lemma takeWhile_isDigits: "takeWhile isDigit r \<noteq> [] \<Longrightarrow> isDigits (takeWhile isDigit r)"
  by (simp add: isDigits_alt list_all_iff) (metis set_takeWhileD)

lemma lexMinus_sound:
  "lexMinus s = (sg, s0) \<Longrightarrow> s = sg @ s0 \<and> (sg = [] \<or> sg = [0x2D])"
  by (auto simp: lexMinus_def split: list.splits if_splits)

lemma lexInt_sound:
  "lexInt s = Some (i, s1) \<Longrightarrow> s = i @ s1 \<and> isIntegerPart i"
  by (auto simp: lexInt_def isIntegerPart_def isDigits_alt list_all_iff
      split: list.splits if_splits dest: set_takeWhileD)

lemma lexFrac_sound:
  "lexFrac s = Some (f, s2) \<Longrightarrow> s = f @ s2 \<and> isFraction f"
  by (auto simp: lexFrac_def isFraction_def takeWhile_isDigits split: list.splits if_splits)

lemma lexSign_sound:
  "lexSign s = (sg, r) \<Longrightarrow> s = sg @ r \<and> (sg = [] \<or> sg = [0x2B] \<or> sg = [0x2D])"
  by (auto simp: lexSign_def split: list.splits if_splits)

lemma lexExp_sound:
  assumes "lexExp s = Some (x, s3)"
  shows "s = x @ s3 \<and> isExponent x"
proof (cases s)
  case Nil
  with assms show ?thesis by (simp add: lexExp_def isExponent_def)
next
  case (Cons c r)
  show ?thesis
  proof (cases "c = 0x65 \<or> c = 0x45")
    case False
    with assms Cons show ?thesis by (auto simp: lexExp_def isExponent_def)
  next
    case True
    obtain sg r' where sg: "lexSign r = (sg, r')" by (cases "lexSign r")
    from lexSign_sound [OF sg] have r: "r = sg @ r'" and sgs: "sg = [] \<or> sg = [0x2B] \<or> sg = [0x2D]"
      by simp_all
    from assms Cons True sg have ne: "takeWhile isDigit r' \<noteq> []"
      and x: "x = c # sg @ takeWhile isDigit r'" and s3: "s3 = dropWhile isDigit r'"
      by (auto simp: lexExp_def split: if_splits)
    have "s = x @ s3" using Cons r x s3 by simp
    moreover have "isExponent x"
      unfolding isExponent_def using x True sgs takeWhile_isDigits [OF ne] by blast
    ultimately show ?thesis by simp
  qed
qed

lemma lexNumber_sound:
  assumes "lexNumber s = Some (n, r)"
  shows "s = n @ r \<and> isNumber n"
proof -
  obtain sg s0 where m: "lexMinus s = (sg, s0)" by (cases "lexMinus s")
  with assms obtain i s1 where i: "lexInt s0 = Some (i, s1)"
    by (auto simp: lexNumber_def split: option.splits)
  with assms m obtain f s2 where f: "lexFrac s1 = Some (f, s2)"
    by (auto simp: lexNumber_def split: option.splits)
  with assms m i obtain x s3 where x: "lexExp s2 = Some (x, s3)"
    by (auto simp: lexNumber_def split: option.splits)
  from assms m i f x have n: "n = sg @ i @ f @ x" and r: "r = s3"
    by (simp_all add: lexNumber_def)
  from lexMinus_sound [OF m] lexInt_sound [OF i] lexFrac_sound [OF f] lexExp_sound [OF x] n r
  have "s = n @ r" by simp
  moreover have "isNumber n"
    unfolding isNumber_def
    using lexMinus_sound [OF m] lexInt_sound [OF i] lexFrac_sound [OF f] lexExp_sound [OF x] n
    by blast
  ultimately show ?thesis by simp
qed

lemma isIntegerPart_first: "isIntegerPart i \<Longrightarrow> \<exists>c t. i = c # t \<and> isDigit c"
  by (cases i) (auto simp: isIntegerPart_def isDigits_alt isDigit_special)

lemma isNumber_first:
  "isNumber n \<Longrightarrow> \<exists>c t. n = c # t \<and> (c = 0x2D \<or> isDigit c)"
  by (auto simp: isNumber_def dest!: isIntegerPart_first)

lemma lexMinus_complete:
  "sg = [] \<or> sg = [0x2D] \<Longrightarrow> isIntegerPart i \<Longrightarrow> lexMinus (sg @ i @ r) = (sg, i @ r)"
  by (auto simp: lexMinus_def isDigit_special dest!: isIntegerPart_first)

lemma lexInt_complete:
  assumes "isIntegerPart i" and "stopsDigits r"
  shows "lexInt (i @ r) = Some (i, r)"
proof (cases "i = [0x30]")
  case True
  then show ?thesis by (simp add: lexInt_def)
next
  case False
  with assms(1) obtain c t where i: "i = c # t" and c: "isDigit c" "c \<noteq> 0x30"
    and t: "list_all isDigit t"
    by (cases i) (auto simp: isIntegerPart_def isDigits_alt)
  then show ?thesis
    using takeWhile_digits [OF t assms(2)] dropWhile_digits [OF t assms(2)]
    by (simp add: lexInt_def)
qed

lemma lexFrac_complete:
  assumes "isFraction f" and "stopsDigits r" and "f = [] \<Longrightarrow> r = [] \<or> hd r \<noteq> 0x2E"
  shows "lexFrac (f @ r) = Some (f, r)"
proof (cases "f = []")
  case True
  with assms(3) show ?thesis by (cases r) (auto simp: lexFrac_def)
next
  case False
  with assms(1) obtain d where f: "f = 0x2E # d" and d: "d \<noteq> []" "list_all isDigit d"
    by (auto simp: isFraction_def isDigits_alt)
  then show ?thesis
    using takeWhile_digits [OF d(2) assms(2)] dropWhile_digits [OF d(2) assms(2)]
    by (simp add: lexFrac_def)
qed

lemma lexSign_complete:
  "sg = [] \<or> sg = [0x2B] \<or> sg = [0x2D] \<Longrightarrow> isDigits d \<Longrightarrow> lexSign (sg @ d @ r) = (sg, d @ r)"
  by (cases d) (auto simp: lexSign_def isDigits_alt isDigit_special)

lemma lexExp_complete:
  assumes "isExponent x" and "stopsDigits r"
    and "x = [] \<Longrightarrow> r = [] \<or> (hd r \<noteq> 0x65 \<and> hd r \<noteq> 0x45)"
  shows "lexExp (x @ r) = Some (x, r)"
proof (cases "x = []")
  case True
  with assms(3) show ?thesis by (cases r) (auto simp: lexExp_def)
next
  case False
  with assms(1) obtain c sg d where x: "x = c # sg @ d" and c: "c = 0x65 \<or> c = 0x45"
    and sg: "sg = [] \<or> sg = [0x2B] \<or> sg = [0x2D]" and d: "isDigits d"
    by (auto simp: isExponent_def)
  from d have d': "d \<noteq> []" "list_all isDigit d" by (simp_all add: isDigits_alt)
  show ?thesis
    using x c d' lexSign_complete [OF sg d, of r]
      takeWhile_digits [OF d'(2) assms(2)] dropWhile_digits [OF d'(2) assms(2)]
    by (auto simp: lexExp_def)
qed

lemma endsNumber_stops: "endsNumber r \<Longrightarrow> stopsDigits r"
  by (auto simp: endsNumber_def stopsDigits_def)

lemma stopsDigits_append:
  "(x = [] \<Longrightarrow> stopsDigits r) \<Longrightarrow> (x \<noteq> [] \<Longrightarrow> \<not> isDigit (hd x)) \<Longrightarrow> stopsDigits (x @ r)"
  by (cases x) (auto simp: stopsDigits_def)

lemma isExponent_first: "isExponent x \<Longrightarrow> x \<noteq> [] \<Longrightarrow> hd x = 0x65 \<or> hd x = 0x45"
  by (auto simp: isExponent_def)

lemma isFraction_first: "isFraction f \<Longrightarrow> f \<noteq> [] \<Longrightarrow> hd f = 0x2E"
  by (auto simp: isFraction_def)

lemma lexNumber_complete:
  assumes "isNumber n" and "endsNumber r"
  shows "lexNumber (n @ r) = Some (n, r)"
proof -
  from assms(1) obtain sg i f x where n: "n = sg @ i @ f @ x"
    and sg: "sg = [] \<or> sg = [0x2D]" and i: "isIntegerPart i" and f: "isFraction f"
    and x: "isExponent x"
    by (auto simp: isNumber_def)
  have sr: "stopsDigits r" using assms(2) by (rule endsNumber_stops)
  have sx: "stopsDigits (x @ r)"
  proof (rule stopsDigits_append)
    show "stopsDigits r" by (rule sr)
    show "\<not> isDigit (hd x)" if "x \<noteq> []" using isExponent_first [OF x that] by (auto simp: isDigit_special)
  qed
  have sf: "stopsDigits (f @ x @ r)"
  proof (rule stopsDigits_append)
    show "stopsDigits (x @ r)" by (rule sx)
    show "\<not> isDigit (hd f)" if "f \<noteq> []" using isFraction_first [OF f that] by (auto simp: isDigit_special)
  qed
  have 1: "lexMinus (sg @ i @ f @ x @ r) = (sg, i @ f @ x @ r)"
    using lexMinus_complete [OF sg i] by simp
  have 2: "lexInt (i @ f @ x @ r) = Some (i, f @ x @ r)"
    using lexInt_complete [OF i sf] by simp
  have "x @ r = [] \<or> hd (x @ r) \<noteq> 0x2E"
    using isExponent_first [OF x] assms(2) by (cases x) (auto simp: endsNumber_def)
  then have 3: "lexFrac (f @ x @ r) = Some (f, x @ r)"
    using lexFrac_complete [OF f sx] by simp
  have "r = [] \<or> (hd r \<noteq> 0x65 \<and> hd r \<noteq> 0x45)"
    using assms(2) by (auto simp: endsNumber_def)
  then have 4: "lexExp (x @ r) = Some (x, r)"
    using lexExp_complete [OF x sr] by simp
  show ?thesis using n 1 2 3 4 by (simp add: lexNumber_def)
qed

lemma startsWithNumber_simps [simp]:
  "startsWithNumber [] = False"
  "startsWithNumber (t # r) = (\<exists>n. t = TNumber n)"
  by (simp_all add: startsWithNumber_def split: token.splits)

lemma consToken_eq_Some:
  "(consToken t x = Some ts) = (\<exists>ts'. x = Some ts' \<and> ts = t # ts')"
  by (cases x) (auto simp: consToken_def)

lemma take_eq_append: "take n cs = p \<Longrightarrow> cs = p @ drop n cs"
  by (metis append_take_drop_id)

lemma tokenize_cases:
  assumes "tokenize s = Some ts"
  obtains
      (finish) "s = []" "ts = []"
    | (space) c r where "s = c # r" "isWhiteSpace c" "tokenize r = Some ts"
    | (lbrace) r ts' where "s = 0x7B # r" "tokenize r = Some ts'" "ts = TLBrace # ts'"
    | (rbrace) r ts' where "s = 0x7D # r" "tokenize r = Some ts'" "ts = TRBrace # ts'"
    | (lbracket) r ts' where "s = 0x5B # r" "tokenize r = Some ts'" "ts = TLBracket # ts'"
    | (rbracket) r ts' where "s = 0x5D # r" "tokenize r = Some ts'" "ts = TRBracket # ts'"
    | (colon) r ts' where "s = 0x3A # r" "tokenize r = Some ts'" "ts = TColon # ts'"
    | (comma) r ts' where "s = 0x2C # r" "tokenize r = Some ts'" "ts = TComma # ts'"
    | (string) cs str r ts' where "s = 0x22 # cs" "scanString cs = Some (str, r)"
        "tokenize r = Some ts'" "ts = TString str # ts'"
    | (true) r ts' where "s = js ''true'' @ r" "tokenize r = Some ts'" "ts = TTrue # ts'"
    | (false) r ts' where "s = js ''false'' @ r" "tokenize r = Some ts'" "ts = TFalse # ts'"
    | (null) r ts' where "s = js ''null'' @ r" "tokenize r = Some ts'" "ts = TNull # ts'"
    | (number) n r ts' where "lexNumber s = Some (n, r)" "tokenize r = Some ts'"
        "ts = TNumber n # ts'"
proof (cases s)
  case Nil
  with assms show ?thesis using finish by simp
next
  case (Cons c cs)
  show ?thesis
  proof (cases "isWhiteSpace c")
    case True
    with assms Cons show ?thesis using space [of c cs] by simp
  next
    case ws: False
    consider "c = 0x7B" | "c = 0x7D" | "c = 0x5B" | "c = 0x5D" | "c = 0x3A" | "c = 0x2C"
      | "c = 0x22" | "c = 0x74" | "c = 0x66" | "c = 0x6E"
      | "c \<noteq> 0x7B" "c \<noteq> 0x7D" "c \<noteq> 0x5B" "c \<noteq> 0x5D" "c \<noteq> 0x3A" "c \<noteq> 0x2C"
        "c \<noteq> 0x22" "c \<noteq> 0x74" "c \<noteq> 0x66" "c \<noteq> 0x6E"
      by blast
    then show ?thesis
    proof cases
      case 1
      with ws assms Cons show ?thesis using lbrace [of cs] by (auto simp: consToken_eq_Some)
    next
      case 2
      with ws assms Cons show ?thesis using rbrace [of cs] by (auto simp: consToken_eq_Some)
    next
      case 3
      with ws assms Cons show ?thesis using lbracket [of cs] by (auto simp: consToken_eq_Some)
    next
      case 4
      with ws assms Cons show ?thesis using rbracket [of cs] by (auto simp: consToken_eq_Some)
    next
      case 5
      with ws assms Cons show ?thesis using colon [of cs] by (auto simp: consToken_eq_Some)
    next
      case 6
      with ws assms Cons show ?thesis using comma [of cs] by (auto simp: consToken_eq_Some)
    next
      case 7
      with ws assms Cons obtain str r where sc: "scanString cs = Some (str, r)"
        and t: "consToken (TString str) (tokenize r) = Some ts"
        by (auto split: option.splits)
      with 7 Cons show ?thesis using string [of cs str r] by (auto simp: consToken_eq_Some)
    next
      case 8
      with ws assms Cons have tk: "take 3 cs = js ''rue''"
        and t: "consToken TTrue (tokenize (drop 3 cs)) = Some ts"
        by (auto split: if_splits)
      from take_eq_append [OF tk] 8 Cons have "s = js ''true'' @ drop 3 cs"
        by (simp add: js_def)
      with t show ?thesis using true [of "drop 3 cs"] by (auto simp: consToken_eq_Some)
    next
      case 9
      with ws assms Cons have tk: "take 4 cs = js ''alse''"
        and t: "consToken TFalse (tokenize (drop 4 cs)) = Some ts"
        by (auto split: if_splits)
      from take_eq_append [OF tk] 9 Cons have "s = js ''false'' @ drop 4 cs"
        by (simp add: js_def)
      with t show ?thesis using false [of "drop 4 cs"] by (auto simp: consToken_eq_Some)
    next
      case 10
      with ws assms Cons have tk: "take 3 cs = js ''ull''"
        and t: "consToken TNull (tokenize (drop 3 cs)) = Some ts"
        by (auto split: if_splits)
      from take_eq_append [OF tk] 10 Cons have "s = js ''null'' @ drop 3 cs"
        by (simp add: js_def)
      with t show ?thesis using null [of "drop 3 cs"] by (auto simp: consToken_eq_Some)
    next
      case 11
      with ws assms Cons obtain n r where "lexNumber s = Some (n, r)"
        "consToken (TNumber n) (tokenize r) = Some ts"
        by (auto split: option.splits)
      then show ?thesis using number [of n r] by (auto simp: consToken_eq_Some)
    qed
  qed
qed

lemma isWhiteSpace_table: "isWhiteSpace c = (c \<in> set whiteSpace)"
  by (auto simp: isWhiteSpace_def whiteSpace_def)

lemma tokenize_sound: "tokenize s = Some ts \<Longrightarrow> tokens s ts"
proof (induction s arbitrary: ts rule: length_induct)
  case (1 s)
  note IH = 1(1) [rule_format]
  from 1(2) show ?case
  proof (cases rule: tokenize_cases)
    case finish
    then show ?thesis by (simp add: tokens_end)
  next
    case (space c r)
    then show ?thesis using IH [of r ts] by (simp add: tokens_space isWhiteSpace_table)
  next
    case (lbrace r ts')
    then show ?thesis using IH [of r ts'] by (simp add: tokens_lbrace)
  next
    case (rbrace r ts')
    then show ?thesis using IH [of r ts'] by (simp add: tokens_rbrace)
  next
    case (lbracket r ts')
    then show ?thesis using IH [of r ts'] by (simp add: tokens_lbracket)
  next
    case (rbracket r ts')
    then show ?thesis using IH [of r ts'] by (simp add: tokens_rbracket)
  next
    case (colon r ts')
    then show ?thesis using IH [of r ts'] by (simp add: tokens_colon)
  next
    case (comma r ts')
    then show ?thesis using IH [of r ts'] by (simp add: tokens_comma)
  next
    case (string cs str r ts')
    from scanString_sound [OF string(2)] obtain body where
      b: "cs = body @ 0x22 # r" "stringCharacters body str" by blast
    with string have "tokens r ts'" using IH [of r ts'] by simp
    with b string show ?thesis using tokens_string [of body str r ts'] by simp
  next
    case (true r ts')
    then have "tokens r ts'" using IH [of r ts'] by (simp add: js_def)
    with true show ?thesis using tokens_true [of r ts'] by simp
  next
    case (false r ts')
    then have "tokens r ts'" using IH [of r ts'] by (simp add: js_def)
    with false show ?thesis using tokens_false [of r ts'] by simp
  next
    case (null r ts')
    then have "tokens r ts'" using IH [of r ts'] by (simp add: js_def)
    with null show ?thesis using tokens_null [of r ts'] by simp
  next
    case (number n r ts')
    from lexNumber_sound [OF number(1)] have n: "s = n @ r" "isNumber n" by simp_all
    from lexNumber_shorter [OF number(1)] number have "tokens r ts'" using IH [of r ts'] by simp
    with n number show ?thesis using tokens_number [of n r ts'] by simp
  qed
qed

lemma isDigit_not_special:
  assumes "c = 0x2D \<or> isDigit c"
  shows "\<not> isWhiteSpace c" "c \<noteq> 0x7B" "c \<noteq> 0x7D" "c \<noteq> 0x5B" "c \<noteq> 0x5D" "c \<noteq> 0x3A"
    "c \<noteq> 0x2C" "c \<noteq> 0x22" "c \<noteq> 0x74" "c \<noteq> 0x66" "c \<noteq> 0x6E"
  using assms by (auto simp: isDigit_def isWhiteSpace_def)

lemma tokenize_number:
  assumes "isNumber n" and "endsNumber s"
  shows "tokenize (n @ s) = consToken (TNumber n) (tokenize s)"
proof -
  from isNumber_first [OF assms(1)] obtain c t where n: "n = c # t" and c: "c = 0x2D \<or> isDigit c"
    by blast
  have "tokenize (c # t @ s) =
        (case lexNumber (c # t @ s) of None \<Rightarrow> None | Some (n, r) \<Rightarrow> consToken (TNumber n) (tokenize r))"
    using isDigit_not_special [OF c] by simp
  with lexNumber_complete [OF assms] n show ?thesis by simp
qed

lemma tokens_first:
  "tokens s ts \<Longrightarrow> \<not> startsWithNumber ts \<Longrightarrow> endsNumber s"
proof (induction rule: tokens.induct)
  case (tokens_space c s ts)
  then show ?case by (auto simp: endsNumber_def whiteSpace_def isDigit_def)
next
  case (tokens_number n s ts)
  then show ?case by simp
qed (simp_all add: endsNumber_def isDigit_def js_def)

lemma tokenize_complete: "tokens s ts \<Longrightarrow> separated ts \<Longrightarrow> tokenize s = Some ts"
proof (induction rule: tokens.induct)
  case tokens_end
  show ?case by simp
next
  case (tokens_space c s ts)
  then show ?case by (simp add: isWhiteSpace_table)
next
  case (tokens_string body str s ts)
  then show ?case
    using scanString_complete [of body str s] by (simp add: isWhiteSpace_def consToken_def)
next
  case (tokens_number n s ts)
  then have "endsNumber s" "tokenize s = Some ts"
    using tokens_first [of s ts] by simp_all
  then show ?case using tokenize_number [OF tokens_number(1)] by (simp add: consToken_def)
qed (simp_all add: isWhiteSpace_def consToken_def js_def)

subsection \<open>The automaton and the syntactic grammar\<close>

lemma separated_append:
  "separated a \<Longrightarrow> separated b \<Longrightarrow> \<not> startsWithNumber b \<Longrightarrow> separated (a @ b)"
proof (induction a)
  case Nil
  then show ?case by simp
next
  case (Cons t a)
  then show ?case by (cases a) auto
qed

lemma valueTokens_separated:
  "valueTokens ts v \<Longrightarrow> separated ts"
  "elementTokens ts vs \<Longrightarrow> separated ts"
  "memberTokens ts ms \<Longrightarrow> separated ts"
proof (induction rule: valueTokens_elementTokens_memberTokens.inducts)
  case (value_array ts vs)
  then show ?case using separated_append [of ts "[TRBracket]"] by simp
next
  case (value_object ts ms)
  then show ?case using separated_append [of ts "[TRBrace]"] by simp
next
  case (elements_more ts v ts' vs)
  then show ?case using separated_append [of ts "TComma # ts'"] by simp
next
  case (members_one ts v k)
  then show ?case by simp
next
  case (members_more ts v ts' ms k)
  then show ?case using separated_append [of ts "TComma # ts'"] by simp
qed simp_all

lemma valueTokens_first:
  "valueTokens ts v \<Longrightarrow> \<exists>t r. ts = t # r \<and> t \<noteq> TRBracket \<and> t \<noteq> TRBrace"
  "elementTokens ts vs \<Longrightarrow> \<exists>t r. ts = t # r \<and> t \<noteq> TRBracket"
  "memberTokens ts ms \<Longrightarrow> \<exists>k r. ts = TString k # r"
proof (induction rule: valueTokens_elementTokens_memberTokens.inducts)
  case (elements_more ts v ts' vs)
  then show ?case by auto
qed auto

lemma run_first_element:
  "t \<noteq> TRBracket \<Longrightarrow> run (ExpectFirstElement st) (t # r) = run (ExpectValue (InArray [] # st)) (t # r)"
  by (cases t) simp_all

lemma run_first_member:
  "run (ExpectFirstMember st) (TString k # r) = run (ExpectKey [] st) (TString k # r)"
  by simp

lemma objectOf_simps [simp]:
  "objectOf acc [] = acc"
  "objectOf acc ((k, v) # ms) = objectOf (defineProperty k v acc) ms"
  by (simp_all add: objectOf_def)

lemma run_complete:
  "valueTokens ts v \<Longrightarrow> run (ExpectValue st) (ts @ rest) = run (complete v st) rest"
  "elementTokens ts vs \<Longrightarrow>
     run (ExpectValue (InArray acc # st)) (ts @ TRBracket # rest) =
     run (complete (JArray (acc @ vs)) st) rest"
  "memberTokens ts ms \<Longrightarrow>
     run (ExpectKey oacc st) (ts @ TRBrace # rest) =
     run (complete (JObject (objectOf oacc ms)) st) rest"
proof (induction arbitrary: st rest and acc st rest and oacc st rest
    rule: valueTokens_elementTokens_memberTokens.inducts)
  case (value_array ts vs)
  from valueTokens_first(2) [OF value_array(1)] obtain t r where t: "ts = t # r" "t \<noteq> TRBracket"
    by blast
  have "run (ExpectValue st) ((TLBracket # ts @ [TRBracket]) @ rest) =
        run (ExpectFirstElement st) (ts @ TRBracket # rest)"
    by simp
  also have "\<dots> = run (ExpectValue (InArray [] # st)) (ts @ TRBracket # rest)"
    using t run_first_element [of t st "r @ TRBracket # rest"] by simp
  also have "\<dots> = run (complete (JArray vs) st) rest"
    using value_array(2) [of "[]" st rest] by simp
  finally show ?case .
next
  case (value_object ts ms)
  from valueTokens_first(3) [OF value_object(1)] obtain k r where t: "ts = TString k # r"
    by blast
  have "run (ExpectValue st) ((TLBrace # ts @ [TRBrace]) @ rest) =
        run (ExpectFirstMember st) (ts @ TRBrace # rest)"
    by simp
  also have "\<dots> = run (ExpectKey [] st) (ts @ TRBrace # rest)"
    using t by simp
  also have "\<dots> = run (complete (JObject (objectOf [] ms)) st) rest"
    using value_object(2) [of "[]" st rest] by simp
  finally show ?case .
next
  case (elements_one ts v)
  show ?case using elements_one(2) [of "InArray acc # st" "TRBracket # rest"] by simp
next
  case (elements_more ts v ts' vs)
  have "run (ExpectValue (InArray acc # st)) ((ts @ TComma # ts') @ TRBracket # rest) =
        run (complete v (InArray acc # st)) (TComma # ts' @ TRBracket # rest)"
    using elements_more(3) [of "InArray acc # st" "TComma # ts' @ TRBracket # rest"] by simp
  also have "\<dots> = run (ExpectValue (InArray (acc @ [v]) # st)) (ts' @ TRBracket # rest)"
    by simp
  also have "\<dots> = run (complete (JArray (acc @ v # vs)) st) rest"
    using elements_more(4) [of "acc @ [v]" st rest] by simp
  finally show ?case .
next
  case (members_one ts v k)
  show ?case using members_one(2) [of "InObject oacc k # st" "TRBrace # rest"] by simp
next
  case (members_more ts v ts' ms k)
  have "run (ExpectKey oacc st) ((TString k # TColon # ts @ TComma # ts') @ TRBrace # rest) =
        run (complete v (InObject oacc k # st)) (TComma # ts' @ TRBrace # rest)"
    using members_more(3) [of "InObject oacc k # st" "TComma # ts' @ TRBrace # rest"] by simp
  also have "\<dots> = run (ExpectKey (defineProperty k v oacc) st) (ts' @ TRBrace # rest)"
    by simp
  also have "\<dots> = run (complete (JObject (objectOf oacc ((k, v) # ms))) st) rest"
    using members_more(4) [of "defineProperty k v oacc" st rest] by simp
  finally show ?case .
qed simp_all

lemma run_Done: "run (Done v) ts = Some (Done w) \<Longrightarrow> ts = [] \<and> v = w"
  by (cases ts) simp_all

lemma run_ExpectValue_cases:
  assumes "run (ExpectValue st) ts = Some (Done w)"
  obtains
      (scalar) t r v where "ts = t # r" "valueTokens [t] v" "run (complete v st) r = Some (Done w)"
    | (array) r where "ts = TLBracket # r" "run (ExpectFirstElement st) r = Some (Done w)"
    | (object) r where "ts = TLBrace # r" "run (ExpectFirstMember st) r = Some (Done w)"
proof (cases ts)
  case Nil
  with assms show ?thesis by simp
next
  case (Cons t r)
  show ?thesis
  proof (cases t)
    case TLBrace
    with assms Cons show ?thesis using object [of r] by simp
  next
    case TLBracket
    with assms Cons show ?thesis using array [of r] by simp
  next
    case (TString s)
    with assms Cons show ?thesis using scalar [of t r "JString s"] value_string by simp
  next
    case (TNumber n)
    with assms Cons show ?thesis using scalar [of t r "JNumber n"] value_number by simp
  next
    case TTrue
    with assms Cons show ?thesis using scalar [of t r "JBool True"] value_true by simp
  next
    case TFalse
    with assms Cons show ?thesis using scalar [of t r "JBool False"] value_false by simp
  next
    case TNull
    with assms Cons show ?thesis using scalar [of t r JNull] value_null by simp
  qed (use assms Cons in simp_all)
qed

lemma run_ExpectFirstElement_cases:
  assumes "run (ExpectFirstElement st) ts = Some (Done w)"
  obtains
      (empty) r where "ts = TRBracket # r" "run (complete (JArray []) st) r = Some (Done w)"
    | (element) "run (ExpectValue (InArray [] # st)) ts = Some (Done w)"
proof (cases ts)
  case Nil
  with assms show ?thesis by simp
next
  case (Cons t r)
  show ?thesis
  proof (cases "t = TRBracket")
    case True
    with assms Cons show ?thesis using empty [of r] by simp
  next
    case False
    with assms Cons show ?thesis using element run_first_element [of t st r] by simp
  qed
qed

lemma run_ExpectKey_cases:
  assumes "run (ExpectKey acc st) ts = Some (Done w)"
  obtains k r where "ts = TString k # TColon # r"
    "run (ExpectValue (InObject acc k # st)) r = Some (Done w)"
proof (cases ts)
  case Nil
  with assms show ?thesis by simp
next
  case (Cons t r)
  with assms obtain k where t: "t = TString k" by (cases t) simp_all
  show ?thesis
  proof (cases r)
    case Nil
    with assms Cons t show ?thesis by simp
  next
    case c2: (Cons t' r')
    with assms Cons t have "t' = TColon" by (cases t') simp_all
    with assms Cons t c2 show ?thesis using that [of k r'] by simp
  qed
qed

lemma run_ExpectFirstMember_cases:
  assumes "run (ExpectFirstMember st) ts = Some (Done w)"
  obtains
      (empty) r where "ts = TRBrace # r" "run (complete (JObject []) st) r = Some (Done w)"
    | (key) "run (ExpectKey [] st) ts = Some (Done w)"
proof (cases ts)
  case Nil
  with assms show ?thesis by simp
next
  case (Cons t r)
  show ?thesis
  proof (cases t)
    case TRBrace
    with assms Cons show ?thesis using empty [of r] by simp
  next
    case (TString k)
    with assms Cons show ?thesis using key by simp
  qed (use assms Cons in simp_all)
qed

lemma run_AfterElement_cases:
  assumes "run (AfterElement acc st) ts = Some (Done w)"
  obtains
      (close) r where "ts = TRBracket # r" "run (complete (JArray acc) st) r = Some (Done w)"
    | (more) r where "ts = TComma # r" "run (ExpectValue (InArray acc # st)) r = Some (Done w)"
proof (cases ts)
  case Nil
  with assms show ?thesis by simp
next
  case (Cons t r)
  show ?thesis
  proof (cases t)
    case TRBracket
    with assms Cons show ?thesis using close [of r] by simp
  next
    case TComma
    with assms Cons show ?thesis using more [of r] by simp
  qed (use assms Cons in simp_all)
qed

lemma run_AfterMember_cases:
  assumes "run (AfterMember acc st) ts = Some (Done w)"
  obtains
      (close) r where "ts = TRBrace # r" "run (complete (JObject acc) st) r = Some (Done w)"
    | (more) r where "ts = TComma # r" "run (ExpectKey acc st) r = Some (Done w)"
proof (cases ts)
  case Nil
  with assms show ?thesis by simp
next
  case (Cons t r)
  show ?thesis
  proof (cases t)
    case TRBrace
    with assms Cons show ?thesis using close [of r] by simp
  next
    case TComma
    with assms Cons show ?thesis using more [of r] by simp
  qed (use assms Cons in simp_all)
qed

lemma valueTokens_nonempty: "valueTokens ts v \<Longrightarrow> ts \<noteq> []"
  using valueTokens_first(1) by blast

lemma readsValueI:
  "ts = ts1 @ ts2 \<Longrightarrow> valueTokens ts1 v \<Longrightarrow> run (complete v st) ts2 = Some (Done w)
     \<Longrightarrow> readsValue st ts w"
  unfolding readsValue_def using valueTokens_nonempty [of ts1 v]
  by (intro exI [of _ ts1] exI [of _ ts2] exI [of _ v]) (cases ts1, auto)

lemma readsElements_value:
  assumes v: "readsValue (InArray acc # st) r w"
    and IH: "\<And>acc' t. length t < length r \<Longrightarrow> run (AfterElement acc' st) t = Some (Done w)
               \<Longrightarrow> readsElements acc' st t w"
  shows "\<exists>ts1 ts2 vs. r = ts1 @ TRBracket # ts2 \<and> elementTokens ts1 vs \<and>
           run (complete (JArray (acc @ vs)) st) ts2 = Some (Done w)"
proof -
  from v obtain r1 r2 v where r: "r = r1 @ r2" and v: "valueTokens r1 v"
    and l: "length r2 < length r" and c: "run (AfterElement (acc @ [v]) st) r2 = Some (Done w)"
    by (auto simp: readsValue_def)
  from IH [OF l c] obtain q1 q2 vs where q: "r2 = q1 @ TRBracket # q2"
    and e: "(q1 = [] \<and> vs = []) \<or> (\<exists>p. q1 = TComma # p \<and> elementTokens p vs)"
    and d: "run (complete (JArray ((acc @ [v]) @ vs)) st) q2 = Some (Done w)"
    by (auto simp: readsElements_def)
  from e show ?thesis
  proof
    assume "q1 = [] \<and> vs = []"
    with r q v d have "r = r1 @ TRBracket # q2 \<and> elementTokens r1 [v] \<and>
        run (complete (JArray (acc @ [v])) st) q2 = Some (Done w)"
      by (simp add: elements_one)
    then show ?thesis by blast
  next
    assume "\<exists>p. q1 = TComma # p \<and> elementTokens p vs"
    then obtain p where p: "q1 = TComma # p" "elementTokens p vs" by blast
    with r q v d have "r = (r1 @ TComma # p) @ TRBracket # q2 \<and>
        elementTokens (r1 @ TComma # p) (v # vs) \<and>
        run (complete (JArray (acc @ v # vs)) st) q2 = Some (Done w)"
      by (simp add: elements_more)
    then show ?thesis by blast
  qed
qed

lemma readsMembers_value:
  assumes v: "readsValue (InObject acc k # st) r w"
    and IH: "\<And>acc' t. length t < length r \<Longrightarrow> run (AfterMember acc' st) t = Some (Done w)
               \<Longrightarrow> readsMoreMembers acc' st t w"
  shows "readsMembers acc st (TString k # TColon # r) w"
proof -
  from v obtain r1 r2 v where r: "r = r1 @ r2" and v: "valueTokens r1 v"
    and l: "length r2 < length r"
    and c: "run (AfterMember (defineProperty k v acc) st) r2 = Some (Done w)"
    by (auto simp: readsValue_def)
  from IH [OF l c] obtain q1 q2 ms where q: "r2 = q1 @ TRBrace # q2"
    and e: "(q1 = [] \<and> ms = []) \<or> (\<exists>p. q1 = TComma # p \<and> memberTokens p ms)"
    and d: "run (complete (JObject (objectOf (defineProperty k v acc) ms)) st) q2 = Some (Done w)"
    by (auto simp: readsMoreMembers_def)
  from e show ?thesis
  proof
    assume "q1 = [] \<and> ms = []"
    with r q v d have "TString k # TColon # r = (TString k # TColon # r1) @ TRBrace # q2 \<and>
        memberTokens (TString k # TColon # r1) [(k, v)] \<and>
        run (complete (JObject (objectOf acc [(k, v)])) st) q2 = Some (Done w)"
      by (simp add: members_one)
    then show ?thesis unfolding readsMembers_def by blast
  next
    assume "\<exists>p. q1 = TComma # p \<and> memberTokens p ms"
    then obtain p where p: "q1 = TComma # p" "memberTokens p ms" by blast
    with r q v d have
      "TString k # TColon # r = (TString k # TColon # r1 @ TComma # p) @ TRBrace # q2 \<and>
        memberTokens (TString k # TColon # r1 @ TComma # p) ((k, v) # ms) \<and>
        run (complete (JObject (objectOf acc ((k, v) # ms))) st) q2 = Some (Done w)"
      by (simp add: members_more)
    then show ?thesis unfolding readsMembers_def by blast
  qed
qed

lemma run_sound:
  "(run (ExpectValue st) ts = Some (Done w) \<longrightarrow> readsValue st ts w) \<and>
   (run (AfterElement acc st) ts = Some (Done w) \<longrightarrow> readsElements acc st ts w) \<and>
   (run (ExpectKey oacc st) ts = Some (Done w) \<longrightarrow> readsMembers oacc st ts w) \<and>
   (run (AfterMember oacc st) ts = Some (Done w) \<longrightarrow> readsMoreMembers oacc st ts w)"
proof (induction ts arbitrary: st acc oacc rule: length_induct)
  case (1 ts)
  have IHV: "readsValue st' t w"
    if "length t < length ts" "run (ExpectValue st') t = Some (Done w)" for st' t
    using 1 that by blast
  have IHE: "readsElements acc' st' t w"
    if "length t < length ts" "run (AfterElement acc' st') t = Some (Done w)" for acc' st' t
    using 1 that by blast
  have IHK: "readsMembers acc' st' t w"
    if "length t < length ts" "run (ExpectKey acc' st') t = Some (Done w)" for acc' st' t
    using 1 that by blast
  have IHM: "readsMoreMembers acc' st' t w"
    if "length t < length ts" "run (AfterMember acc' st') t = Some (Done w)" for acc' st' t
    using 1 that by blast
  have K: "readsMembers a st t w"
    if "length t \<le> length ts" "run (ExpectKey a st) t = Some (Done w)" for a t
  proof -
    from that(2) obtain k r where t: "t = TString k # TColon # r"
      and r: "run (ExpectValue (InObject a k # st)) r = Some (Done w)"
      by (rule run_ExpectKey_cases)
    have "readsValue (InObject a k # st) r w" using IHV [OF _ r] t that(1) by simp
    moreover have "readsMoreMembers acc' st u w"
      if "length u < length r" "run (AfterMember acc' st) u = Some (Done w)" for acc' u
      using IHM [OF _ that(2)] that(1) t \<open>length t \<le> length ts\<close> by simp
    ultimately show ?thesis unfolding t by (rule readsMembers_value)
  qed
  have V: "readsValue st ts w" if "run (ExpectValue st) ts = Some (Done w)"
    using that
  proof (cases rule: run_ExpectValue_cases)
    case (scalar t r v)
    then show ?thesis using readsValueI [of ts "[t]" r v st w] by simp
  next
    case (array r)
    from array(2) show ?thesis
    proof (cases rule: run_ExpectFirstElement_cases)
      case (empty r')
      then show ?thesis
        using array(1) readsValueI [of ts "[TLBracket, TRBracket]" r' "JArray []" st w]
          value_empty_array by simp
    next
      case element
      have "readsValue (InArray [] # st) r w" using IHV [OF _ element] array(1) by simp
      moreover have "readsElements acc' st u w"
        if "length u < length r" "run (AfterElement acc' st) u = Some (Done w)" for acc' u
        using IHE [OF _ that(2)] that(1) array(1) by simp
      ultimately obtain ts1 ts2 vs where "r = ts1 @ TRBracket # ts2" "elementTokens ts1 vs"
        "run (complete (JArray ([] @ vs)) st) ts2 = Some (Done w)"
        using readsElements_value [of "[]" st r w] by blast
      then show ?thesis
        using array(1) readsValueI [of ts "TLBracket # ts1 @ [TRBracket]" ts2 "JArray vs" st w]
          value_array [of ts1 vs] by simp
    qed
  next
    case (object r)
    from object(2) show ?thesis
    proof (cases rule: run_ExpectFirstMember_cases)
      case (empty r')
      then show ?thesis
        using object(1) readsValueI [of ts "[TLBrace, TRBrace]" r' "JObject []" st w]
          value_empty_object by simp
    next
      case key
      have "readsMembers [] st r w" using IHK [OF _ key] object(1) by simp
      then obtain ts1 ts2 ms where "r = ts1 @ TRBrace # ts2" "memberTokens ts1 ms"
        "run (complete (JObject (objectOf [] ms)) st) ts2 = Some (Done w)"
        unfolding readsMembers_def by blast
      then show ?thesis
        using object(1)
          readsValueI [of ts "TLBrace # ts1 @ [TRBrace]" ts2 "JObject (objectOf [] ms)" st w]
          value_object [of ts1 ms] by simp
    qed
  qed
  have E: "readsElements acc st ts w" if "run (AfterElement acc st) ts = Some (Done w)"
    using that
  proof (cases rule: run_AfterElement_cases)
    case (close r)
    then have "ts = [] @ TRBracket # r \<and> run (complete (JArray (acc @ [])) st) r = Some (Done w)"
      by simp
    then show ?thesis unfolding readsElements_def by blast
  next
    case (more r)
    have "readsValue (InArray acc # st) r w" using IHV [OF _ more(2)] more(1) by simp
    moreover have "readsElements acc' st u w"
      if "length u < length r" "run (AfterElement acc' st) u = Some (Done w)" for acc' u
      using IHE [OF _ that(2)] that(1) more(1) by simp
    ultimately obtain ts1 ts2 vs where "r = ts1 @ TRBracket # ts2" "elementTokens ts1 vs"
      "run (complete (JArray (acc @ vs)) st) ts2 = Some (Done w)"
      using readsElements_value [of acc st r w] by blast
    with more(1) have "ts = (TComma # ts1) @ TRBracket # ts2 \<and>
        (\<exists>p. TComma # ts1 = TComma # p \<and> elementTokens p vs) \<and>
        run (complete (JArray (acc @ vs)) st) ts2 = Some (Done w)"
      by simp
    then show ?thesis unfolding readsElements_def by blast
  qed
  have M: "readsMoreMembers oacc st ts w" if "run (AfterMember oacc st) ts = Some (Done w)"
    using that
  proof (cases rule: run_AfterMember_cases)
    case (close r)
    then have "ts = [] @ TRBrace # r \<and>
        run (complete (JObject (objectOf oacc [])) st) r = Some (Done w)"
      by simp
    then show ?thesis unfolding readsMoreMembers_def by blast
  next
    case (more r)
    have "readsMembers oacc st r w" using IHK [OF _ more(2)] more(1) by simp
    then obtain ts1 ts2 ms where "r = ts1 @ TRBrace # ts2" "memberTokens ts1 ms"
      "run (complete (JObject (objectOf oacc ms)) st) ts2 = Some (Done w)"
      unfolding readsMembers_def by blast
    with more(1) have "ts = (TComma # ts1) @ TRBrace # ts2 \<and>
        (\<exists>p. TComma # ts1 = TComma # p \<and> memberTokens p ms) \<and>
        run (complete (JObject (objectOf oacc ms)) st) ts2 = Some (Done w)"
      by simp
    then show ?thesis unfolding readsMoreMembers_def by blast
  qed
  from V E K [of ts oacc] M show ?case by simp
qed

lemma run_valueTokens:
  assumes "run (ExpectValue []) ts = Some (Done w)"
  shows "valueTokens ts w"
proof -
  from run_sound [of "[]" ts w] assms have "readsValue [] ts w" by blast
  then obtain ts1 ts2 v where "ts = ts1 @ ts2" "valueTokens ts1 v"
    "run (Done v) ts2 = Some (Done w)"
    by (auto simp: readsValue_def)
  with run_Done [of v ts2 w] show ?thesis by simp
qed

lemma valueTokens_run: "valueTokens ts v \<Longrightarrow> run (ExpectValue []) ts = Some (Done v)"
  using run_complete(1) [of ts v "[]" "[]"] by simp

subsection \<open>The parser and the grammar\<close>

lemma JSON_parse_cases: "JSON_parse s = Inl SyntaxError \<or> (\<exists>v. JSON_parse s = Inr v)"
  by (auto simp: JSON_parse_def split: option.splits pstate.splits)

lemma JSON_parse_Inr:
  "(JSON_parse s = Inr v) = (\<exists>ts. tokenize s = Some ts \<and> run (ExpectValue []) ts = Some (Done v))"
  by (auto simp: JSON_parse_def split: option.splits pstate.splits)

lemma JSON_parse_JSONText: "(JSON_parse s = Inr v) = JSONText s v"
proof
  assume "JSON_parse s = Inr v"
  then obtain ts where "tokenize s = Some ts" "run (ExpectValue []) ts = Some (Done v)"
    by (auto simp: JSON_parse_Inr)
  then show "JSONText s v"
    unfolding JSONText_def using tokenize_sound run_valueTokens by blast
next
  assume "JSONText s v"
  then obtain ts where ts: "tokens s ts" "valueTokens ts v" by (auto simp: JSONText_def)
  from tokenize_complete [OF ts(1) valueTokens_separated(1) [OF ts(2)]] valueTokens_run [OF ts(2)]
  show "JSON_parse s = Inr v" by (auto simp: JSON_parse_Inr)
qed

lemma JSON_parse_SyntaxError:
  "(JSON_parse s = Inl e) = (e = SyntaxError \<and> \<not> (\<exists>v. JSONText s v))"
  using JSON_parse_cases [of s] by (auto simp: JSON_parse_JSONText [symmetric])

subsection \<open>The two patterns\<close>

lemma matchAtoms_length:
  "matchAtoms as s = Some rest \<Longrightarrow> length s = length as + length rest"
  by (induction as s rule: matchAtoms.induct) (auto split: if_splits)

lemma matchAtoms_git:
  "matchAtoms [Lit 0x67, Lit 0x69, Lit 0x74] s = Some rest \<longleftrightarrow> s = js ''git'' @ rest"
proof (cases s)
  case Nil
  then show ?thesis by (simp add: js_def)
next
  case s1: (Cons a s1)
  show ?thesis
  proof (cases s1)
    case Nil
    with s1 show ?thesis by (simp add: js_def)
  next
    case s2: (Cons b s2)
    show ?thesis
    proof (cases s2)
      case Nil
      with s1 s2 show ?thesis by (simp add: js_def)
    next
      case (Cons c s3)
      with s1 s2 show ?thesis by (auto simp: js_def)
    qed
  qed
qed

lemma isGitUri_iff: "isGitUri u \<longleftrightarrow> scheme u = js ''git''"
proof -
  have "matchHere gitOnly s \<noteq> None \<longleftrightarrow> s = js ''git''" for s
  proof (cases "matchAtoms [Lit 0x67, Lit 0x69, Lit 0x74] s")
    case None
    then have "s \<noteq> js ''git'' @ []" using matchAtoms_git [of s "[]"] by simp
    with None show ?thesis by (simp add: matchHere_def gitOnly_def)
  next
    case (Some rest)
    then have "s = js ''git'' @ rest" by (simp add: matchAtoms_git)
    with Some show ?thesis by (simp add: matchHere_def gitOnly_def)
  qed
  from this [of "scheme u"] show ?thesis
    by (cases "matchHere gitOnly (scheme u)") (simp_all add: isGitUri_def test_def exec_def gitOnly_def)
qed

lemma matchHere_dotGit:
  "matchHere dotGit s = Some rest \<longleftrightarrow>
     rest = [] \<and> (\<exists>c. s = c # js ''git'' \<and> \<not> isLineTerminator c)"
proof (cases s)
  case Nil
  then show ?thesis by (simp add: matchHere_def dotGit_def)
next
  case (Cons c t)
  have "matchHere dotGit (c # t) = Some rest \<longleftrightarrow>
          \<not> isLineTerminator c \<and> rest = [] \<and> t = js ''git''"
  proof (cases "isLineTerminator c")
    case True
    then show ?thesis by (simp add: matchHere_def dotGit_def)
  next
    case False
    show ?thesis
    proof (cases "matchAtoms [Lit 0x67, Lit 0x69, Lit 0x74] t")
      case None
      then have "t \<noteq> js ''git'' @ []" using matchAtoms_git [of t "[]"] by simp
      with None False show ?thesis by (simp add: matchHere_def dotGit_def)
    next
      case (Some r)
      then have "t = js ''git'' @ r" by (simp add: matchAtoms_git)
      with Some False show ?thesis by (auto simp: matchHere_def dotGit_def)
    qed
  qed
  with Cons show ?thesis by auto
qed

lemma search_dotGit_Some:
  "search dotGit pre s = Some (before, after) \<longleftrightarrow>
     after = [] \<and> (\<exists>p c. s = p @ c # js ''git'' \<and> \<not> isLineTerminator c \<and> before = pre @ p)"
proof (induction s arbitrary: pre)
  case Nil
  have "matchHere dotGit [] = None"
    using matchHere_dotGit [of "[]"] by (cases "matchHere dotGit []") auto
  then show ?case by simp
next
  case (Cons a s)
  show ?case
  proof (cases "matchHere dotGit (a # s)")
    case (Some rest)
    then have r: "rest = []" and s: "s = js ''git''" and a: "\<not> isLineTerminator a"
      using matchHere_dotGit [of "a # s" rest] by auto
    have "p = [] \<and> c = a" if "a # s = p @ c # js ''git''" for p c
      using that s by (cases p) (auto simp: js_def append_eq_Cons_conv Cons_eq_append_conv)
    with Some r s a show ?thesis by auto
  next
    case None
    have no: "\<not> (a # s = [] @ c # js ''git'' \<and> \<not> isLineTerminator c)" for c
      using None matchHere_dotGit [of "a # s" "[]"] by auto
    have "(\<exists>p c. a # s = p @ c # js ''git'' \<and> \<not> isLineTerminator c \<and> before = pre @ p)
        \<longleftrightarrow> (\<exists>p c. s = p @ c # js ''git'' \<and> \<not> isLineTerminator c \<and> before = (pre @ [a]) @ p)"
    proof
      assume "\<exists>p c. a # s = p @ c # js ''git'' \<and> \<not> isLineTerminator c \<and> before = pre @ p"
      then obtain p c where h: "a # s = p @ c # js ''git''" "\<not> isLineTerminator c" "before = pre @ p"
        by blast
      from h no obtain p' where "p = a # p'" by (cases p) auto
      with h show "\<exists>p c. s = p @ c # js ''git'' \<and> \<not> isLineTerminator c \<and> before = (pre @ [a]) @ p"
        by auto
    next
      assume "\<exists>p c. s = p @ c # js ''git'' \<and> \<not> isLineTerminator c \<and> before = (pre @ [a]) @ p"
      then obtain p c where "s = p @ c # js ''git''" "\<not> isLineTerminator c" "before = (pre @ [a]) @ p"
        by blast
      then have "a # s = (a # p) @ c # js ''git'' \<and> \<not> isLineTerminator c \<and> before = pre @ (a # p)"
        by simp
      then show "\<exists>p c. a # s = p @ c # js ''git'' \<and> \<not> isLineTerminator c \<and> before = pre @ p"
        by blast
    qed
    with None Cons.IH [of "pre @ [a]"] show ?thesis by simp
  qed
qed

lemma test_dotGit:
  "test dotGit s \<longleftrightarrow> (\<exists>p c. s = p @ c # js ''git'' \<and> \<not> isLineTerminator c)"
proof -
  have "test dotGit s \<longleftrightarrow> (\<exists>b a. search dotGit [] s = Some (b, a))"
    by (auto simp: test_def exec_def dotGit_def)
  then show ?thesis by (auto simp: search_dotGit_Some)
qed

lemma replace_dotGit:
  "\<not> isLineTerminator c \<Longrightarrow> replace (p @ c # js ''git'') dotGit [] = p"
proof -
  assume c: "\<not> isLineTerminator c"
  have "search dotGit [] (p @ c # js ''git'') = Some (p, [])"
    using c by (auto simp: search_dotGit_Some)
  moreover have "\<not> fromStart dotGit" by (simp add: dotGit_def)
  ultimately show ?thesis by (simp add: replace_def exec_def)
qed


section \<open>Properties of the module\<close>

subsection \<open>The encoder, component by component\<close>

lemma orKeep_simps: "orKeep None old = old" "orKeep (Some new) old = new"
  by (simp_all add: orKeep_def)

lemma uri_with_spread:
  "uri_with u ((spreadUri u)\<lparr>new_path := Some p\<rparr>) = u\<lparr>path := p\<rparr>"
  by (simp add: uri_with_def spreadUri_def orKeep_simps)

lemma path_uri_with_spread:
  "path (uri_with u ((spreadUri u)\<lparr>new_path := Some p, new_query := q\<rparr>)) = p"
  by (simp add: uri_with_def spreadUri_def orKeep_simps)

lemma scheme_toGitUri: "scheme (toGitUri fsPath u ref options) = js ''git''"
  by (simp add: toGitUri_def uri_with_def orKeep_simps Let_def)

lemma authority_toGitUri: "authority (toGitUri fsPath u ref options) = authority u"
  by (simp add: toGitUri_def uri_with_def orKeep_simps Let_def)

lemma fragment_toGitUri: "fragment (toGitUri fsPath u ref options) = fragment u"
  by (simp add: toGitUri_def uri_with_def orKeep_simps Let_def)

lemma path_toGitUri:
  "path (toGitUri fsPath u ref options) =
     (if replaceFileExtension options = Some True then path u @ js ''.git''
      else if truthy (submoduleOf options) then path u @ js ''.diff''
      else path u)"
  by (simp add: toGitUri_def uri_with_def orKeep_simps Let_def)

lemma query_toGitUri:
  "query (toGitUri fsPath u ref options) =
     JSON_stringify (JObject
       (case submoduleOf options of
          None \<Rightarrow> [(js ''path'', JString (fsPath u)), (js ''ref'', JString ref)]
        | Some s \<Rightarrow>
            if s \<noteq> [] then
              [(js ''path'', JString (fsPath u)), (js ''ref'', JString ref),
               (js ''submoduleOf'', JString s)]
            else [(js ''path'', JString (fsPath u)), (js ''ref'', JString ref)]))"
  by (simp add: toGitUri_def uri_with_def orKeep_def Let_def defineProperty_def arrayIndex_path
      keys_distinct split: option.splits)

subsection \<open>Decoding an encoded locator\<close>

lemma decode_encode_plain:
  "fromGitUri (toGitUri fsPath u ref \<lparr>replaceFileExtension = rfe, submoduleOf = None\<rparr>) =
     Inr (JObject [(js ''path'', JString (fsPath u)), (js ''ref'', JString ref)])"
  by (simp add: fromGitUri_def query_toGitUri parse_params del: JSON_stringify.simps)

lemma decode_encode_empty:
  "fromGitUri (toGitUri fsPath u ref \<lparr>replaceFileExtension = rfe, submoduleOf = Some []\<rparr>) =
     Inr (JObject [(js ''path'', JString (fsPath u)), (js ''ref'', JString ref)])"
  by (simp add: fromGitUri_def query_toGitUri parse_params del: JSON_stringify.simps)

lemma decode_encode_submodule:
  "sm \<noteq> [] \<Longrightarrow>
   fromGitUri (toGitUri fsPath u ref \<lparr>replaceFileExtension = rfe, submoduleOf = Some sm\<rparr>) =
     Inr (JObject [(js ''path'', JString (fsPath u)), (js ''ref'', JString ref),
                   (js ''submoduleOf'', JString sm)])"
  by (simp add: fromGitUri_def query_toGitUri parse_params_submodule del: JSON_stringify.simps)

subsection \<open>One look-up in the file system\<close>

lemma resolvePath_eq:
  "resolvePath p fs =
     (Inr (case realpath_of fs (Some (JString p)) of Inl e \<Rightarrow> p | Inr resolved \<Rightarrow> resolved),
      fs\<lparr>lookups := lookups fs @ [Some (JString p)]\<rparr>)"
  by (simp add: resolvePath_def tryCatch_def realpathSync_def returns_def split: sum.splits)

text \<open>A look-up leaves the file system as it is: a later look-up gives what it gave before.\<close>

lemma fst_resolvePath_cong:
  "realpath_of fs' = realpath_of fs \<Longrightarrow> fst (resolvePath p fs') = fst (resolvePath p fs)"
  by (simp add: resolvePath_eq)

lemma resolveUri_eq:
  "resolveUri u fs =
     (Inr (u\<lparr>path := (case realpath_of fs (Some (JString (path u))) of
                         Inl e \<Rightarrow> path u | Inr resolved \<Rightarrow> resolved)\<rparr>),
      fs\<lparr>lookups := lookups fs @ [Some (JString (path u))]\<rparr>)"
  by (simp add: resolveUri_def andThen_def resolvePath_eq returns_def uri_with_spread)

subsection \<open>Decoding with resolution\<close>

lemma fromGitUriAndResolve_parsed:
  "JSON_parse (query u) = Inr v \<Longrightarrow>
   fst (fromGitUriAndResolve u fs) =
     Inr (case memberPath v of
            Inl e \<Rightarrow> v
          | Inr p \<Rightarrow>
              (case realpath_of fs p of
                 Inl e \<Rightarrow> v
               | Inr resolved \<Rightarrow>
                   JObject (defineProperty (js ''path'') (JString resolved) (ownProperties v))))"
  by (simp add: fromGitUriAndResolve_def andThen_def outcome_def tryCatch_def realpathSync_def
      returns_def split: sum.splits)

lemma fromGitUriAndResolve_returns:
  "JSON_parse (query u) = Inr v \<Longrightarrow> \<exists>result fs'. fromGitUriAndResolve u fs = (Inr result, fs')"
  by (simp add: fromGitUriAndResolve_def andThen_def outcome_def tryCatch_def realpathSync_def
      returns_def split: sum.splits)

lemma fromGitUriAndResolve_error:
  "JSON_parse (query u) = Inl e \<Longrightarrow> fromGitUriAndResolve u fs = (Inl e, fs)"
  by (simp add: fromGitUriAndResolve_def andThen_def outcome_def)

text \<open>Replacing a member changes the value under its key and nothing else.\<close>

lemma map_of_replaceProperty:
  "map_of ms k \<noteq> None \<Longrightarrow> map_of (replaceProperty k v ms) = (map_of ms)(k \<mapsto> v)"
  by (induction ms) (auto simp: fun_eq_iff)

lemma keys_replaceProperty: "map fst (replaceProperty k v ms) = map fst ms"
  by (induction ms) auto

subsection \<open>Resolution of an identifier that may carry the suffix\<close>

lemma dot_git: "js ''.git'' = 0x2E # js ''git''" "\<not> isLineTerminator 0x2E"
  by (simp_all add: js_def isLineTerminator_def)

lemma test_literal_suffix: "test dotGit (p @ js ''.git'')"
  using dot_git by (auto simp: test_dotGit)

lemma replace_literal_suffix: "replace (p @ js ''.git'') dotGit [] = p"
  using replace_dotGit [of "0x2E" p] dot_git by simp

text \<open>Whatever happens inside the \<open>try\<close>, an identifier is returned.\<close>

lemma resolveUriWithGitScheme_returns:
  "\<exists>u' fs'. resolveUriWithGitScheme u fs = (Inr u', fs')"
  by (simp add: resolveUriWithGitScheme_def tryCatch_def returns_def split: prod.splits sum.splits)

lemma path_resolveUriWithGitScheme:
  assumes "query u = [] \<or> JSON_parse (query u) = Inr v"
  shows "\<exists>u'. fst (resolveUriWithGitScheme u fs) = Inr u' \<and>
     Inr (path u') =
       (if test dotGit (path u)
        then map_sum id (\<lambda>r. r @ js ''.git'') (fst (resolvePath (replace (path u) dotGit []) fs))
        else fst (resolvePath (path u) fs))"
proof (cases "query u = []")
  case True
  then show ?thesis
    by (simp add: resolveUriWithGitScheme_def Let_def tryCatch_def andThen_def returns_def
        resolvePath_eq path_uri_with_spread uri_with_spread)
next
  case False
  with assms have parsed: "JSON_parse (query u) = Inr v" by simp
  show ?thesis
  proof (cases "test dotGit (path u)")
    case True
    obtain result fs2 where
      "fromGitUriAndResolve u (snd (resolvePath (replace (path u) dotGit []) fs)) = (Inr result, fs2)"
      using fromGitUriAndResolve_returns [OF parsed] by blast
    with True False show ?thesis
      by (simp add: resolveUriWithGitScheme_def Let_def tryCatch_def andThen_def returns_def
          resolvePath_eq path_uri_with_spread)
  next
    case nomatch: False
    obtain result fs2 where
      "fromGitUriAndResolve u (snd (resolvePath (path u) fs)) = (Inr result, fs2)"
      using fromGitUriAndResolve_returns [OF parsed] by blast
    with nomatch False show ?thesis
      by (simp add: resolveUriWithGitScheme_def Let_def tryCatch_def andThen_def returns_def
          resolvePath_eq path_uri_with_spread)
  qed
qed

lemma resolveUriWithGitScheme_unparsed:
  assumes "query u \<noteq> []" "JSON_parse (query u) = Inl e"
  shows "fst (resolveUriWithGitScheme u fs) = Inr u"
  using assms
  by (simp add: resolveUriWithGitScheme_def Let_def tryCatch_def andThen_def returns_def
      resolvePath_eq fromGitUriAndResolve_error)

lemma parse_HEAD: "JSON_parse (js ''HEAD'') = Inl SyntaxError"
  by (simp add: evaluate)

lemma resolvePath_example:
  "fst (resolvePath (js ''/link/a'') exampleFs) = Inr (js ''/real/a'')"
  "fst (resolvePath (js ''/gone'') exampleFs) = Inr (js ''/gone'')"
  "fst (resolvePath (js ''/repo/d'') exampleFs) = Inr (js ''/repo/d'')"
  by (simp_all add: resolvePath_eq exampleFs_def exampleRealpath_def exampleLinks_def js_def)

text \<open>
  The dot of the pattern matches any code unit: a path that ends in \<open>digit\<close> loses its
  last four code units before the look-up and comes back with the suffix \<open>.git\<close>.
\<close>

lemma loose_dot_strips_any_character:
  "fst (resolveUriWithGitScheme digitUri exampleFs) = Inr (digitUri\<lparr>path := js ''/repo/d.git''\<rparr>)"
proof -
  have p: "path digitUri = js ''/repo/d'' @ 0x69 # js ''git''"
    by (simp add: digitUri_def js_def)
  have i: "\<not> isLineTerminator 0x69" by (simp add: isLineTerminator_def)
  have t: "test dotGit (path digitUri)"
    unfolding p test_dotGit using i by blast
  have r: "replace (path digitUri) dotGit [] = js ''/repo/d''"
    unfolding p using i by (rule replace_dotGit)
  have q: "query digitUri = []" by (simp add: digitUri_def)
  have "fst (resolveUriWithGitScheme digitUri exampleFs) =
          Inr (digitUri\<lparr>path := js ''/repo/d'' @ js ''.git''\<rparr>)"
    using t r q resolvePath_example(3)
    by (simp add: resolveUriWithGitScheme_def Let_def tryCatch_def andThen_def returns_def
        resolvePath_eq uri_with_spread)
  then show ?thesis by (simp add: js_def)
qed

subsection \<open>The loops of the batch operations\<close>

lemma forEachFolder_eq:
  "realpath_of fs = realpath_of fs0 \<Longrightarrow>
   fst (forEachFolder acc xs fs) =
     Inr (acc @ map (\<lambda>f. f\<lparr>uri := (uri f)\<lparr>path :=
            (case realpath_of fs0 (Some (JString (path (uri f)))) of
               Inl e \<Rightarrow> path (uri f) | Inr resolved \<Rightarrow> resolved)\<rparr>\<rparr>) xs)"
proof (induction xs arbitrary: fs acc)
  case Nil
  show ?case by (simp add: returns_def)
next
  case (Cons x xs)
  have "realpath_of (snd (resolvePath (path (uri x)) fs)) = realpath_of fs0"
    using Cons.prems by (simp add: resolvePath_eq)
  from Cons.IH [OF this] Cons.prems show ?case
    by (simp add: andThen_def resolvePath_eq uri_with_spread)
qed

lemma forEachEditor_eq:
  "realpath_of fs = realpath_of fs0 \<Longrightarrow>
   fst (forEachEditor acc xs fs) =
     Inr (acc @ map (\<lambda>e. e\<lparr>document := (document e)\<lparr>uri := (uri (document e))\<lparr>path :=
            (case realpath_of fs0 (Some (JString (path (uri (document e))))) of
               Inl err \<Rightarrow> path (uri (document e)) | Inr resolved \<Rightarrow> resolved)\<rparr>\<rparr>\<rparr>) xs)"
proof (induction xs arbitrary: fs acc)
  case Nil
  show ?case by (simp add: returns_def)
next
  case (Cons x xs)
  have "realpath_of (snd (resolveUri (uri (document x)) fs)) = realpath_of fs0"
    using Cons.prems by (simp add: resolveUri_eq)
  from Cons.IH [OF this] Cons.prems show ?case
    by (simp add: andThen_def resolveUri_eq)
qed

text \<open>Two folders, the first behind a symbolic link, the second missing: the result and the look-ups.\<close>

lemma resolveWorkspaceFolders_example:
  "resolveWorkspaceFolders (Some exampleFolders) exampleFs =
     (Inr [\<lparr>uri = linkUri\<lparr>path := js ''/real/a''\<rparr>, name = js ''a'', index = 0\<rparr>,
           \<lparr>uri = goneUri, name = js ''gone'', index = 1\<rparr>],
      exampleFs\<lparr>lookups := [Some (JString (js ''/link/a'')), Some (JString (js ''/gone''))]\<rparr>)"
  by (simp add: resolveWorkspaceFolders_def exampleFolders_def andThen_def returns_def
      resolvePath_eq exampleFs_def exampleRealpath_def exampleLinks_def linkUri_def goneUri_def
      uri_with_def spreadUri_def orKeep_simps js_def)

section \<open>The claims\<close>

subsection \<open>C1: round trip of the codec\<close>

text \<open>
  Claim C1, as stated: decoding the result of encoding gives the record of the real path
  and the reference, with no member submoduleOf, and a submoduleOf that is supplied is
  recovered exactly. The last part fails for the empty string, which the encoder treats
  as absent: the decoded object is not the one with the member submoduleOf.
\<close>

theorem empty_submoduleOf_not_recovered:
  "fromGitUri (toGitUri path exampleUri (js ''abc123'')
       \<lparr>replaceFileExtension = None, submoduleOf = Some []\<rparr>) \<noteq>
     Inr (JObject [(js ''path'', JString (js ''/repo/a.txt'')), (js ''ref'', JString (js ''abc123'')),
                   (js ''submoduleOf'', JString [])])"
  by (simp add: decode_encode_empty)

text \<open>
  Claim C1, amended: for every source identifier and every reference, with or without the
  file extension replaced, decoding the result of encoding gives exactly the object with
  the members path (the real path of the source identifier) and ref, in this order and
  with no member submoduleOf, when no submoduleOf is supplied; a submoduleOf that is
  supplied and is not the empty string is recovered exactly, as the third member; a
  submoduleOf that is the empty string is dropped.
\<close>

theorem decode_encode_round_trip:
  "fromGitUri (toGitUri fsPath u ref \<lparr>replaceFileExtension = rfe, submoduleOf = None\<rparr>) =
     Inr (JObject [(js ''path'', JString (fsPath u)), (js ''ref'', JString ref)])
   \<and> (sm \<noteq> [] \<longrightarrow>
        fromGitUri (toGitUri fsPath u ref \<lparr>replaceFileExtension = rfe, submoduleOf = Some sm\<rparr>) =
          Inr (JObject [(js ''path'', JString (fsPath u)), (js ''ref'', JString ref),
                        (js ''submoduleOf'', JString sm)]))
   \<and> fromGitUri (toGitUri fsPath u ref \<lparr>replaceFileExtension = rfe, submoduleOf = Some []\<rparr>) =
        Inr (JObject [(js ''path'', JString (fsPath u)), (js ''ref'', JString ref)])"
  using decode_encode_plain decode_encode_empty decode_encode_submodule by blast

theorem decode_encode_round_trip_witness:
  "js ''/repo'' \<noteq> []
   \<and> fromGitUri (toGitUri path exampleUri (js ''abc123'')
         \<lparr>replaceFileExtension = Some False, submoduleOf = Some (js ''/repo'')\<rparr>) =
       Inr (JObject [(js ''path'', JString (js ''/repo/a.txt'')), (js ''ref'', JString (js ''abc123'')),
                     (js ''submoduleOf'', JString (js ''/repo''))])"
  using decode_encode_round_trip [of path exampleUri "js ''abc123''" "Some False" "js ''/repo''"]
  by (simp add: exampleUri_def js_def)

subsection \<open>C2: resolution that keeps the suffix\<close>

text \<open>
  Claim C2, as stated: for every identifier whose path ends in \<open>.git\<close> the resulting
  path is the resolved path without the suffix, followed by \<open>.git\<close>. It fails for an
  identifier whose query is not empty and is not JSON: decoding the query raises inside
  the \<open>try\<close>, and the identifier is returned as it is, with its path not resolved.
\<close>

theorem unparsed_query_keeps_path:
  "path brokenUri = js ''/link/a'' @ js ''.git''
   \<and> fst (resolvePath (js ''/link/a'') exampleFs) = Inr (js ''/real/a'')
   \<and> fst (resolveUriWithGitScheme brokenUri exampleFs) = Inr brokenUri
   \<and> path brokenUri \<noteq> js ''/real/a'' @ js ''.git''"
proof -
  have "fst (resolveUriWithGitScheme brokenUri exampleFs) = Inr brokenUri"
    by (rule resolveUriWithGitScheme_unparsed [where e = SyntaxError])
      (simp_all add: brokenUri_def parse_HEAD, simp add: js_def)
  moreover have "path brokenUri = js ''/link/a'' @ js ''.git''"
    by (simp add: brokenUri_def js_def)
  moreover have "path brokenUri \<noteq> js ''/real/a'' @ js ''.git''"
    by (simp add: brokenUri_def js_def)
  ultimately show ?thesis
    using resolvePath_example(1) by simp
qed

text \<open>
  Claim C2, amended: \<open>resolveUriWithGitScheme\<close> returns an identifier for every
  identifier. For every identifier whose query is empty or parses as JSON, if the path
  ends with the literal suffix \<open>.git\<close>, the resulting path is what \<open>resolvePath\<close>
  returns for the path without these four code units, followed by \<open>.git\<close>; if the path
  does not end in \<open>git\<close> after a code unit that is not a line terminator, the resulting
  path is what \<open>resolvePath\<close> returns for the whole path, with nothing appended. An
  identifier whose query is not empty and does not parse is returned unchanged.
\<close>

theorem suffix_aware_resolution:
  "(\<exists>u'. fst (resolveUriWithGitScheme u fs) = Inr u')
   \<and> (query u = [] \<or> JSON_parse (query u) = Inr v \<longrightarrow>
      (path u = p @ js ''.git'' \<longrightarrow>
         (\<exists>r u'. fst (resolvePath p fs) = Inr r \<and>
                  fst (resolveUriWithGitScheme u fs) = Inr u' \<and> path u' = r @ js ''.git''))
      \<and> (\<not> (\<exists>q c. path u = q @ c # js ''git'' \<and> \<not> isLineTerminator c) \<longrightarrow>
         (\<exists>r u'. fst (resolvePath (path u) fs) = Inr r \<and>
                  fst (resolveUriWithGitScheme u fs) = Inr u' \<and> path u' = r)))
   \<and> (query u \<noteq> [] \<and> JSON_parse (query u) = Inl e \<longrightarrow>
        fst (resolveUriWithGitScheme u fs) = Inr u)"
proof -
  have t: "\<exists>u'. fst (resolveUriWithGitScheme u fs) = Inr u'"
    using resolveUriWithGitScheme_returns [of u fs] by auto
  have a: "\<exists>r u'. fst (resolvePath p fs) = Inr r \<and>
             fst (resolveUriWithGitScheme u fs) = Inr u' \<and> path u' = r @ js ''.git''"
    if "query u = [] \<or> JSON_parse (query u) = Inr v" "path u = p @ js ''.git''"
    using path_resolveUriWithGitScheme [OF that(1), of fs] that(2)
    by (auto simp: test_literal_suffix replace_literal_suffix resolvePath_eq)
  have b: "\<exists>r u'. fst (resolvePath (path u) fs) = Inr r \<and>
             fst (resolveUriWithGitScheme u fs) = Inr u' \<and> path u' = r"
    if "query u = [] \<or> JSON_parse (query u) = Inr v"
      "\<not> (\<exists>q c. path u = q @ c # js ''git'' \<and> \<not> isLineTerminator c)"
    using path_resolveUriWithGitScheme [OF that(1), of fs] that(2)
    by (auto simp: test_dotGit resolvePath_eq)
  from t a b resolveUriWithGitScheme_unparsed [of u e fs] show ?thesis by blast
qed

theorem suffix_aware_resolution_witness:
  "query gitLinkUri = [] \<and> path gitLinkUri = js ''/link/a'' @ js ''.git''
   \<and> fst (resolvePath (js ''/link/a'') exampleFs) = Inr (js ''/real/a'')
   \<and> fst (resolveUriWithGitScheme gitLinkUri exampleFs) =
       Inr (gitLinkUri\<lparr>path := js ''/real/a.git''\<rparr>)
   \<and> query linkUri = [] \<and> \<not> test dotGit (path linkUri)
   \<and> fst (resolveUriWithGitScheme linkUri exampleFs) = Inr (linkUri\<lparr>path := js ''/real/a''\<rparr>)
   \<and> query brokenUri \<noteq> [] \<and> JSON_parse (query brokenUri) = Inl SyntaxError
   \<and> fst (resolveUriWithGitScheme brokenUri exampleFs) = Inr brokenUri"
proof -
  have g: "query gitLinkUri = []" "path gitLinkUri = js ''/link/a'' @ js ''.git''"
    by (simp_all add: gitLinkUri_def js_def)
  have l: "query linkUri = []" "path linkUri = js ''/link/a''" by (simp_all add: linkUri_def)
  have n: "\<not> test dotGit (path linkUri)"
    by (simp add: linkUri_def test_def exec_def dotGit_def matchHere_def isLineTerminator_def js_def)
  then have n': "\<not> (\<exists>q c. path linkUri = q @ c # js ''git'' \<and> \<not> isLineTerminator c)"
    by (simp add: test_dotGit)
  have b: "query brokenUri \<noteq> []" "JSON_parse (query brokenUri) = Inl SyntaxError"
    by (simp_all add: brokenUri_def parse_HEAD, simp add: js_def)
  have e1: "fst (resolveUriWithGitScheme gitLinkUri exampleFs) =
              Inr (gitLinkUri\<lparr>path := js ''/real/a'' @ js ''.git''\<rparr>)"
    using g resolvePath_example(1)
    by (simp add: resolveUriWithGitScheme_def Let_def tryCatch_def andThen_def returns_def
        resolvePath_eq uri_with_spread test_literal_suffix replace_literal_suffix)
  have e2: "fst (resolveUriWithGitScheme linkUri exampleFs) = Inr (linkUri\<lparr>path := js ''/real/a''\<rparr>)"
    using l n resolvePath_example(1)
    by (simp add: resolveUriWithGitScheme_def Let_def tryCatch_def andThen_def returns_def
        resolvePath_eq uri_with_spread)
  show ?thesis
    using suffix_aware_resolution [where u = gitLinkUri and fs = exampleFs and p = "js ''/link/a''"]
      suffix_aware_resolution [where u = linkUri and fs = exampleFs]
      suffix_aware_resolution [where u = brokenUri and fs = exampleFs and e = SyntaxError]
      g l n n' b e1 e2 resolvePath_example(1)
    by (simp add: js_def)
qed

subsection \<open>C3: the merge triple\<close>

text \<open>
  Claim C3, as stated: the three locators of \<open>toMergeUris\<close> decode to a path that equals
  the path of the source identifier. The encoder stores the real path, \<open>uri.fsPath\<close>, and
  not the path component: for the file \<open>/C:/Repo/a.txt\<close> on a drive the decoded path is
  \<open>c:/Repo/a.txt\<close>, which is not the path of the identifier.
\<close>

theorem merge_path_is_not_the_path_component:
  "fromGitUri (base (toMergeUris (uriToFsPath False) driveUri)) =
     Inr (JObject [(js ''path'', JString (js ''c:/Repo/a.txt'')), (js ''ref'', JString (js '':1''))])
   \<and> path driveUri = js ''/C:/Repo/a.txt''
   \<and> fromGitUri (base (toMergeUris (uriToFsPath False) driveUri)) \<noteq>
     Inr (JObject [(js ''path'', JString (path driveUri)), (js ''ref'', JString (js '':1''))])"
proof -
  have "uriToFsPath False driveUri = js ''c:/Repo/a.txt''"
    by (simp add: uriToFsPath_def driveUri_def isLetter_def toLowerCase_def js_def)
  moreover have "path driveUri = js ''/C:/Repo/a.txt''"
    by (simp add: driveUri_def)
  moreover have "js ''c:/Repo/a.txt'' \<noteq> js ''/C:/Repo/a.txt''"
    by (simp add: js_def)
  ultimately show ?thesis
    by (simp add: toMergeUris_def noOptions_def decode_encode_plain)
qed

text \<open>
  Claim C3, amended: for every source identifier, \<open>toMergeUris\<close> returns three encoded
  locators, base, ours and theirs, of the scheme \<open>git\<close>, whose decoded references are
  \<open>:1\<close>, \<open>:2\<close> and \<open>:3\<close> in this order, whose decoded path is the real path
  (\<open>uri.fsPath\<close>) of the source identifier, which have no member submoduleOf, and whose path
  component is that of the source identifier, with no suffix appended. The decoded path
  is the path component of the source identifier exactly when the real path is.
\<close>

theorem merge_triple:
  "fromGitUri (base (toMergeUris fsPath u)) =
     Inr (JObject [(js ''path'', JString (fsPath u)), (js ''ref'', JString (js '':1''))])
   \<and> fromGitUri (ours (toMergeUris fsPath u)) =
     Inr (JObject [(js ''path'', JString (fsPath u)), (js ''ref'', JString (js '':2''))])
   \<and> fromGitUri (theirs (toMergeUris fsPath u)) =
     Inr (JObject [(js ''path'', JString (fsPath u)), (js ''ref'', JString (js '':3''))])
   \<and> path (base (toMergeUris fsPath u)) = path u
   \<and> path (ours (toMergeUris fsPath u)) = path u
   \<and> path (theirs (toMergeUris fsPath u)) = path u
   \<and> scheme (base (toMergeUris fsPath u)) = js ''git''
   \<and> scheme (ours (toMergeUris fsPath u)) = js ''git''
   \<and> scheme (theirs (toMergeUris fsPath u)) = js ''git''
   \<and> (fromGitUri (base (toMergeUris fsPath u)) =
        Inr (JObject [(js ''path'', JString (path u)), (js ''ref'', JString (js '':1''))])) =
       (fsPath u = path u)
   \<and> (fromGitUri (ours (toMergeUris fsPath u)) =
        Inr (JObject [(js ''path'', JString (path u)), (js ''ref'', JString (js '':2''))])) =
       (fsPath u = path u)
   \<and> (fromGitUri (theirs (toMergeUris fsPath u)) =
        Inr (JObject [(js ''path'', JString (path u)), (js ''ref'', JString (js '':3''))])) =
       (fsPath u = path u)"
  by (simp add: toMergeUris_def noOptions_def decode_encode_plain path_toGitUri scheme_toGitUri
      truthy_def)

subsection \<open>C4: strict decoding\<close>

text \<open>
  Claim C4: \<open>fromGitUri\<close> raises an error exactly when the query is not a syntactically
  valid JSON text, and the error is the syntax error of the parser, as the parser raises
  it; for every valid JSON text it returns the value that the text denotes, whatever its
  shape. Validity and the value denoted are those of the JSON grammar, which is stated
  without the parser. Null, an array and an object without the member path are returned;
  the empty query, a word that is not JSON and a truncated object raise a syntax error.
\<close>

theorem strict_decode:
  "(fromGitUri u = Inr v) = JSONText (query u) v
   \<and> (fromGitUri u = Inl e) = (e = SyntaxError \<and> \<not> (\<exists>w. JSONText (query u) w))
   \<and> fromGitUri u = JSON_parse (query u)
   \<and> fromGitUri (u\<lparr>query := js ''null''\<rparr>) = Inr JNull
   \<and> fromGitUri (u\<lparr>query := js ''[]''\<rparr>) = Inr (JArray [])
   \<and> fromGitUri (u\<lparr>query := js ''{\"ref\":\"x\"}''\<rparr>) = Inr (JObject [(js ''ref'', JString (js ''x''))])
   \<and> fromGitUri (u\<lparr>query := []\<rparr>) = Inl SyntaxError
   \<and> fromGitUri (u\<lparr>query := js ''HEAD''\<rparr>) = Inl SyntaxError
   \<and> fromGitUri (u\<lparr>query := js ''{\"path\":\"/repo/a.txt\",''\<rparr>) = Inl SyntaxError"
proof -
  have "(fromGitUri u = Inr v) = JSONText (query u) v"
    by (simp add: fromGitUri_def JSON_parse_JSONText)
  moreover have "(fromGitUri u = Inl e) = (e = SyntaxError \<and> \<not> (\<exists>w. JSONText (query u) w))"
    by (simp add: fromGitUri_def JSON_parse_SyntaxError)
  moreover have "JSON_parse (js ''null'') = Inr JNull"
    by (simp add: evaluate)
  moreover have "JSON_parse (js ''[]'') = Inr (JArray [])"
    by (simp add: evaluate)
  moreover have "JSON_parse (js ''{\"ref\":\"x\"}'') = Inr (JObject [(js ''ref'', JString (js ''x''))])"
    by (simp add: evaluate)
  moreover have "JSON_parse [] = Inl SyntaxError"
    by (simp add: evaluate)
  moreover have "JSON_parse (js ''{\"path\":\"/repo/a.txt\",'') = Inl SyntaxError"
    by (simp add: evaluate)
  ultimately show ?thesis
    by (simp add: fromGitUri_def parse_HEAD)
qed

text \<open>
  The theorem read from the parser to the grammar: the query \<open>1.5e3\<close> is a valid JSON
  text and denotes that number, a query that is an array of a number and an object denotes that array, and no
  value is denoted by the query \<open>HEAD\<close>.
\<close>

theorem strict_decode_witness:
  "JSONText (js ''1.5e3'') (JNumber (js ''1.5e3''))
   \<and> JSONText (js ''[1,{\"a\":null}]'') (JArray [JNumber (js ''1''), JObject [(js ''a'', JNull)]])
   \<and> \<not> JSONText (js ''HEAD'') JNull"
proof -
  have "JSON_parse (js ''1.5e3'') = Inr (JNumber (js ''1.5e3''))"
    by (simp add: evaluate)
  moreover have "JSON_parse (js ''[1,{\"a\":null}]'') =
      Inr (JArray [JNumber (js ''1''), JObject [(js ''a'', JNull)]])"
    by (simp add: evaluate)
  moreover have "JSON_parse (js ''HEAD'') = Inl SyntaxError"
    by (rule parse_HEAD)
  ultimately show ?thesis
    using strict_decode [of "\<lparr>scheme = [], authority = [], path = [], query = js ''1.5e3'',
        fragment = []\<rparr>" "JNumber (js ''1.5e3'')" SyntaxError]
      strict_decode [of "\<lparr>scheme = [], authority = [], path = [],
        query = js ''[1,{\"a\":null}]'', fragment = []\<rparr>"
        "JArray [JNumber (js ''1''), JObject [(js ''a'', JNull)]]" SyntaxError]
      strict_decode [of brokenUri JNull SyntaxError]
    by (simp add: fromGitUri_def brokenUri_def)
qed

subsection \<open>C5: decoding with resolution\<close>

text \<open>
  Claim C5: for every identifier whose query parses as JSON, \<open>fromGitUriAndResolve\<close>
  returns a value and raises nothing. When the look-up of the member path succeeds, the
  result is the parsed query with the member path set to the resolved path; for a parsed
  object that has the member, it is replaced in its place and the other members are as
  they were. When the look-up fails, or the member cannot be read, the result is the
  parsed query, unchanged.
\<close>

theorem decode_and_resolve:
  assumes "JSON_parse (query u) = Inr v"
  shows "(\<exists>result. fst (fromGitUriAndResolve u fs) = Inr result)
   \<and> (memberPath v = Inr p \<and> realpath_of fs p = Inr resolved \<longrightarrow>
        fst (fromGitUriAndResolve u fs) =
          Inr (JObject (defineProperty (js ''path'') (JString resolved) (ownProperties v))))
   \<and> (v = JObject ms \<and> map_of ms (js ''path'') = Some old \<and>
        realpath_of fs (Some old) = Inr resolved \<longrightarrow>
        fst (fromGitUriAndResolve u fs) =
          Inr (JObject (replaceProperty (js ''path'') (JString resolved) ms)))
   \<and> (memberPath v = Inr p \<and> realpath_of fs p = Inl e \<longrightarrow>
        fst (fromGitUriAndResolve u fs) = Inr v)
   \<and> (memberPath v = Inl e \<longrightarrow> fst (fromGitUriAndResolve u fs) = Inr v)"
proof -
  note r = fromGitUriAndResolve_parsed [OF assms, of fs]
  have a: "\<exists>result. fst (fromGitUriAndResolve u fs) = Inr result"
    unfolding r by simp
  have b: "fst (fromGitUriAndResolve u fs) =
             Inr (JObject (defineProperty (js ''path'') (JString resolved) (ownProperties v)))"
    if "memberPath v = Inr p" "realpath_of fs p = Inr resolved"
    unfolding r using that by simp
  have c: "fst (fromGitUriAndResolve u fs) =
             Inr (JObject (replaceProperty (js ''path'') (JString resolved) ms))"
    if "v = JObject ms" "map_of ms (js ''path'') = Some old" "realpath_of fs (Some old) = Inr resolved"
    unfolding r using that by (simp add: memberPath_def ownProperties_def defineProperty_def)
  have d: "fst (fromGitUriAndResolve u fs) = Inr v"
    if "memberPath v = Inr p" "realpath_of fs p = Inl e"
    unfolding r using that by simp
  have e: "fst (fromGitUriAndResolve u fs) = Inr v" if "memberPath v = Inl e"
    unfolding r using that by simp
  from a b c d e show ?thesis by blast
qed

theorem decode_and_resolve_witness:
  "JSON_parse (query (toGitUri path linkUri (js ''abc123'') noOptions)) =
     Inr (JObject [(js ''path'', JString (js ''/link/a'')), (js ''ref'', JString (js ''abc123''))])
   \<and> fst (fromGitUriAndResolve (toGitUri path linkUri (js ''abc123'') noOptions) exampleFs) =
     Inr (JObject [(js ''path'', JString (js ''/real/a'')), (js ''ref'', JString (js ''abc123''))])
   \<and> JSON_parse (query (toGitUri path goneUri (js ''abc123'') noOptions)) =
     Inr (JObject [(js ''path'', JString (js ''/gone'')), (js ''ref'', JString (js ''abc123''))])
   \<and> fst (fromGitUriAndResolve (toGitUri path goneUri (js ''abc123'') noOptions) exampleFs) =
     Inr (JObject [(js ''path'', JString (js ''/gone'')), (js ''ref'', JString (js ''abc123''))])
   \<and> JSON_parse (query nullUri) = Inr JNull
   \<and> memberPath JNull = Inl TypeError
   \<and> fst (fromGitUriAndResolve nullUri exampleFs) = Inr JNull"
proof -
  have q1: "JSON_parse (query (toGitUri path linkUri (js ''abc123'') noOptions)) =
      Inr (JObject [(js ''path'', JString (js ''/link/a'')), (js ''ref'', JString (js ''abc123''))])"
    using decode_encode_plain [of path linkUri "js ''abc123''" None]
    by (simp add: fromGitUri_def noOptions_def linkUri_def)
  have q2: "JSON_parse (query (toGitUri path goneUri (js ''abc123'') noOptions)) =
      Inr (JObject [(js ''path'', JString (js ''/gone'')), (js ''ref'', JString (js ''abc123''))])"
    using decode_encode_plain [of path goneUri "js ''abc123''" None]
    by (simp add: fromGitUri_def noOptions_def goneUri_def)
  have q3: "JSON_parse (query nullUri) = Inr JNull"
    by (simp add: nullUri_def evaluate)
  show ?thesis
    using decode_and_resolve [OF q1, where fs = exampleFs and resolved = "js ''/real/a''"
        and p = "Some (JString (js ''/link/a''))" and old = "JString (js ''/link/a'')"
        and ms = "[(js ''path'', JString (js ''/link/a'')), (js ''ref'', JString (js ''abc123''))]"]
      decode_and_resolve [OF q2, where fs = exampleFs and e = "SystemError (js ''ENOENT'')"
        and p = "Some (JString (js ''/gone''))"]
      decode_and_resolve [OF q3, where fs = exampleFs and e = TypeError]
      q1 q2 q3
    by (simp add: exampleFs_def exampleRealpath_def exampleLinks_def memberPath_def
        ownProperties_def defineProperty_def js_def)
qed

subsection \<open>C6: best-effort path resolution\<close>

text \<open>
  Claim C6: for every path, \<open>resolvePath\<close> returns a string and raises nothing: the
  canonical path when the look-up succeeds, and the path it was given, unchanged, when the
  look-up raises any error. The call makes exactly one look-up, of the path it was given,
  and leaves the file system as it is.
\<close>

theorem resolvePath_best_effort:
  "(\<exists>result. fst (resolvePath p fs) = Inr result)
   \<and> (realpath_of fs (Some (JString p)) = Inr resolved \<longrightarrow> fst (resolvePath p fs) = Inr resolved)
   \<and> (realpath_of fs (Some (JString p)) = Inl e \<longrightarrow> fst (resolvePath p fs) = Inr p)
   \<and> lookups (snd (resolvePath p fs)) = lookups fs @ [Some (JString p)]
   \<and> realpath_of (snd (resolvePath p fs)) = realpath_of fs"
  by (simp add: resolvePath_eq)

theorem resolvePath_best_effort_witness:
  "realpath_of exampleFs (Some (JString (js ''/link/a''))) = Inr (js ''/real/a'')
   \<and> fst (resolvePath (js ''/link/a'') exampleFs) = Inr (js ''/real/a'')
   \<and> realpath_of exampleFs (Some (JString (js ''/gone''))) = Inl (SystemError (js ''ENOENT''))
   \<and> fst (resolvePath (js ''/gone'') exampleFs) = Inr (js ''/gone'')
   \<and> lookups (snd (resolvePath (js ''/gone'') exampleFs)) = [Some (JString (js ''/gone''))]"
  using resolvePath_best_effort [of "js ''/link/a''" exampleFs "js ''/real/a''"]
    resolvePath_best_effort [of "js ''/gone''" exampleFs _ "SystemError (js ''ENOENT'')"]
  by (simp add: exampleFs_def exampleRealpath_def exampleLinks_def js_def)

subsection \<open>C7: precedence of the suffixes\<close>

text \<open>
  Claim C7, as stated: encoding with submoduleOf set and replaceFileExtension unset
  appends \<open>.diff\<close>. It fails for the empty string, which counts as unset in the condition
  of the encoder: the path is left as it is.
\<close>

theorem empty_submoduleOf_no_diff_suffix:
  "path (toGitUri path exampleUri (js ''abc123'')
      \<lparr>replaceFileExtension = None, submoduleOf = Some []\<rparr>) \<noteq> path exampleUri @ js ''.diff''"
  by (simp add: path_toGitUri truthy_def js_def)

text \<open>
  Claim C7, amended: for every source identifier and reference, encoding with
  replaceFileExtension true gives the path of the source followed by \<open>.git\<close>, whatever
  submoduleOf is; encoding with replaceFileExtension absent or false and a submoduleOf
  that is not the empty string gives the path followed by \<open>.diff\<close>; with
  replaceFileExtension absent or false and submoduleOf absent or empty the path is left
  unchanged.
\<close>

theorem suffix_precedence:
  "path (toGitUri fsPath u ref \<lparr>replaceFileExtension = Some True, submoduleOf = sm\<rparr>) =
     path u @ js ''.git''
   \<and> (rfe \<noteq> Some True \<and> s \<noteq> [] \<longrightarrow>
        path (toGitUri fsPath u ref \<lparr>replaceFileExtension = rfe, submoduleOf = Some s\<rparr>) =
          path u @ js ''.diff'')
   \<and> (rfe \<noteq> Some True \<longrightarrow>
        path (toGitUri fsPath u ref \<lparr>replaceFileExtension = rfe, submoduleOf = None\<rparr>) = path u)
   \<and> (rfe \<noteq> Some True \<longrightarrow>
        path (toGitUri fsPath u ref \<lparr>replaceFileExtension = rfe, submoduleOf = Some []\<rparr>) = path u)"
  by (simp add: path_toGitUri truthy_def)

theorem suffix_precedence_witness:
  "(None :: bool option) \<noteq> Some True \<and> js ''/repo'' \<noteq> []
   \<and> path (toGitUri path exampleUri (js ''abc123'')
        \<lparr>replaceFileExtension = Some True, submoduleOf = Some (js ''/repo'')\<rparr>) = js ''/repo/a.txt.git''
   \<and> path (toGitUri path exampleUri (js ''abc123'')
        \<lparr>replaceFileExtension = None, submoduleOf = Some (js ''/repo'')\<rparr>) = js ''/repo/a.txt.diff''
   \<and> path (toGitUri path exampleUri (js ''abc123'')
        \<lparr>replaceFileExtension = None, submoduleOf = None\<rparr>) = js ''/repo/a.txt''"
  using suffix_precedence [of path exampleUri "js ''abc123''" "Some (js ''/repo'')" None "js ''/repo''"]
  by (simp add: exampleUri_def js_def)

subsection \<open>C8: recognition of the scheme\<close>

text \<open>
  Claim C8: for every source identifier, reference and options, the identifier that
  \<open>toGitUri\<close> produces satisfies \<open>isGitUri\<close>; and for every identifier whose scheme is
  not the string \<open>git\<close>, \<open>isGitUri\<close> is false.
\<close>

theorem scheme_recognition:
  "isGitUri (toGitUri fsPath u ref options) \<and> (scheme v \<noteq> js ''git'' \<longrightarrow> \<not> isGitUri v)"
  by (simp add: isGitUri_iff scheme_toGitUri)

theorem scheme_recognition_witness:
  "scheme exampleUri \<noteq> js ''git'' \<and> \<not> isGitUri exampleUri
   \<and> isGitUri (toGitUri path exampleUri (js ''abc123'') noOptions)"
  using scheme_recognition [of path exampleUri "js ''abc123''" noOptions exampleUri]
  by (simp add: exampleUri_def js_def)

subsection \<open>C9: shape and order of the batch operations\<close>

text \<open>
  Claim C9: \<open>resolveWorkspaceFolders\<close> and \<open>resolveWindowVisibleTextEditors\<close> return a
  sequence of the length of the input and raise nothing; the elements of the result
  are, in order, the elements of the input with the path of the embedded identifier
  replaced by what \<open>resolvePath\<close> returns for it and every other field as it was;
  \<open>resolveWorkspaceFolders\<close> returns the empty sequence for an absent and for an empty
  input.
\<close>

theorem batch_shape_and_order:
  "fst (resolveWorkspaceFolders None fs) = Inr []
   \<and> fst (resolveWorkspaceFolders (Some []) fs) = Inr []
   \<and> (\<exists>result. fst (resolveWorkspaceFolders (Some folders) fs) = Inr result
        \<and> length result = length folders
        \<and> list_all2
             (\<lambda>folder new. \<exists>p. fst (resolvePath (path (uri folder)) fs) = Inr p
                \<and> new = folder\<lparr>uri := (uri folder)\<lparr>path := p\<rparr>\<rparr>)
             folders result)
   \<and> (\<exists>result. fst (resolveWindowVisibleTextEditors editors fs) = Inr result
        \<and> length result = length editors
        \<and> list_all2
             (\<lambda>editor new. \<exists>p. fst (resolvePath (path (uri (document editor))) fs) = Inr p
                \<and> new = editor\<lparr>document :=
                          (document editor)\<lparr>uri := (uri (document editor))\<lparr>path := p\<rparr>\<rparr>\<rparr>)
             editors result)"
  by (simp add: resolveWorkspaceFolders_def resolveWindowVisibleTextEditors_def returns_def
      forEachFolder_eq [OF refl] forEachEditor_eq [OF refl] list_all2_map2 list_all2_same
      resolvePath_eq)

subsection \<open>C10: the components the encoder keeps\<close>

text \<open>
  Claim C10: for every source identifier, reference and options, the identifier that
  \<open>toGitUri\<close> returns has the authority and the fragment of the source identifier.
\<close>

theorem encoder_keeps_authority_and_fragment:
  "authority (toGitUri fsPath u ref options) = authority u
   \<and> fragment (toGitUri fsPath u ref options) = fragment u"
  by (simp add: authority_toGitUri fragment_toGitUri)

end
